theory Spec2Isabelle
  imports Complex_Main
begin

section \<open>The Newton driver (gsElasticityMixedTHNewton.h)\<close>

text \<open>
  The driver is a class template over the coefficient type \<open>T\<close>, which is the type
  parameter \<open>'t\<close> of the model. The driver divides, takes absolute values and compares
  in \<open>T\<close> and does nothing else with it; these three operations are parameters, so that
  the model is that of \<open>T = double\<close> with its rounded quotient, its infinities and its
  not-a-number as much as that of an exact field. The collaborators are not part of the
  modelled sources either: the assembler (\<open>gsElasticityMixedTHAssembler\<close>), the sparse
  LU solver and the vector norm. The driver only calls them, so they are parameters too,
  collected in the same record of functions. The assembler and the solver are objects
  with state of their own, which the driver holds (by reference and by value); their
  states are passed explicitly.
\<close>

record ('a, 'l, 'f, 'v, 'm, 't) collaborators =
  asm_assemble :: "'a \<Rightarrow> 'a"
    \<comment> \<open>\<open>m_assembler.assemble()\<close>\<close>
  asm_assemble_at :: "'f \<Rightarrow> 'f \<Rightarrow> 'a \<Rightarrow> 'a"
    \<comment> \<open>\<open>m_assembler.assemble(m_curSolution, m_curPressure)\<close>\<close>
  asm_matrix :: "'a \<Rightarrow> 'm"
  asm_rhs :: "'a \<Rightarrow> 'v"
  asm_constructSolution :: "'a \<Rightarrow> 'v \<Rightarrow> 'f \<Rightarrow> int \<Rightarrow> 'f"
    \<comment> \<open>\<open>constructSolution(vector, result, unk)\<close>: the new value of \<open>result\<close>\<close>
  asm_updateSolution :: "'a \<Rightarrow> 'v \<Rightarrow> 'f \<Rightarrow> 'f \<Rightarrow> 'f \<times> 'f"
    \<comment> \<open>\<open>updateSolution(vector, displacement, pressure)\<close>: the new values of both fields\<close>
  lu_compute :: "'m \<Rightarrow> 'l \<Rightarrow> 'l"
  lu_factorize :: "'m \<Rightarrow> 'l \<Rightarrow> 'l"
  lu_solve :: "'l \<Rightarrow> 'v \<Rightarrow> 'v"
  vec_norm :: "'v \<Rightarrow> 't"
  t_div :: "'t \<Rightarrow> 't \<Rightarrow> 't"
    \<comment> \<open>\<open>x / y\<close> in \<open>T\<close>\<close>
  t_abs :: "'t \<Rightarrow> 't"
    \<comment> \<open>\<open>std::abs(x)\<close>\<close>
  t_less :: "'t \<Rightarrow> 't \<Rightarrow> bool"
    \<comment> \<open>\<open>x < y\<close> in \<open>T\<close>\<close>

text \<open>The data members of the class, in the order of their declaration.\<close>

record ('a, 'l, 'f, 'v, 't) newton =
  m_assembler :: 'a
  m_curSolution :: 'f
  m_curPressure :: 'f
  m_updateVector :: 'v
  m_solver :: 'l
  m_numIterations :: int
  m_maxIterations :: int
  m_tolerance :: 't
  m_converged :: bool
  m_residue :: 't
  m_updnorm :: 't

text \<open>The accessors \<open>solution\<close>, \<open>converged\<close> and \<open>numIterations\<close>.\<close>

definition solution :: "('a, 'l, 'f, 'v, 't) newton \<Rightarrow> int \<Rightarrow> 'f" where
  "solution s i = (if i = 0 then m_curSolution s else m_curPressure s)"

definition converged :: "('a, 'l, 'f, 'v, 't) newton \<Rightarrow> bool" where
  "converged s = m_converged s"

definition numIterations :: "('a, 'l, 'f, 'v, 't) newton \<Rightarrow> int" where
  "numIterations s = m_numIterations s"

definition setMaxIterations :: "int \<Rightarrow> ('a, 'l, 'f, 'v, 't) newton \<Rightarrow> ('a, 'l, 'f, 'v, 't) newton" where
  "setMaxIterations nIter s = s\<lparr>m_maxIterations := nIter\<rparr>"

definition setTolerance :: "'t \<Rightarrow> ('a, 'l, 'f, 'v, 't) newton \<Rightarrow> ('a, 'l, 'f, 'v, 't) newton" where
  "setTolerance tol s = s\<lparr>m_tolerance := tol\<rparr>"

text \<open>
  \<open>firstIteration\<close>: assemble, factorise and solve, build both fields from the solution
  vector with \<open>constructSolution\<close> (unknown 0, then unknown 1), record the two norms.
\<close>

definition firstIteration ::
  "('a, 'l, 'f, 'v, 'm, 't) collaborators \<Rightarrow> ('a, 'l, 'f, 'v, 't) newton \<Rightarrow> ('a, 'l, 'f, 'v, 't) newton" where
  "firstIteration C s =
     (let a = asm_assemble C (m_assembler s);
          l = lu_compute C (asm_matrix C a) (m_solver s);
          u = lu_solve C l (asm_rhs C a)
      in s\<lparr>m_converged := False,
            m_assembler := a,
            m_solver := l,
            m_updateVector := u,
            m_curSolution := asm_constructSolution C a u (m_curSolution s) 0,
            m_curPressure := asm_constructSolution C a u (m_curPressure s) 1,
            m_residue := vec_norm C (asm_rhs C a),
            m_updnorm := vec_norm C u\<rparr>)"

text \<open>
  \<open>nextIteration\<close>: assemble at the current fields, refactorise and solve, hand the
  solution vector and both fields to \<open>updateSolution\<close>, record the two norms.
\<close>

definition nextIteration ::
  "('a, 'l, 'f, 'v, 'm, 't) collaborators \<Rightarrow> ('a, 'l, 'f, 'v, 't) newton \<Rightarrow> ('a, 'l, 'f, 'v, 't) newton" where
  "nextIteration C s =
     (let a = asm_assemble_at C (m_curSolution s) (m_curPressure s) (m_assembler s);
          l = lu_factorize C (asm_matrix C a) (m_solver s);
          u = lu_solve C l (asm_rhs C a);
          sp = asm_updateSolution C a u (m_curSolution s) (m_curPressure s)
      in s\<lparr>m_assembler := a,
            m_solver := l,
            m_updateVector := u,
            m_curSolution := fst sp,
            m_curPressure := snd sp,
            m_residue := vec_norm C (asm_rhs C a),
            m_updnorm := vec_norm C u\<rparr>)"

text \<open>
  One termination test, \<open>std::abs(x / x0) < tol\<close>, evaluated in \<open>T\<close>.
\<close>

definition below_tolerance ::
  "('a, 'l, 'f, 'v, 'm, 't) collaborators \<Rightarrow> 't \<Rightarrow> 't \<Rightarrow> 't \<Rightarrow> bool" where
  "below_tolerance C x x0 tol = t_less C (t_abs C (t_div C x x0)) tol"

definition termination_criteria ::
  "('a, 'l, 'f, 'v, 'm, 't) collaborators \<Rightarrow> 't \<Rightarrow> 't \<Rightarrow> ('a, 'l, 'f, 'v, 't) newton \<Rightarrow> bool" where
  "termination_criteria C initResidue initUpdate s =
     (below_tolerance C (m_updnorm s) initUpdate (m_tolerance s) \<or>
      below_tolerance C (m_residue s) initResidue (m_tolerance s))"

lemma nextIteration_numIterations [simp]:
  "m_numIterations (nextIteration C s) = m_numIterations s"
  by (simp add: nextIteration_def Let_def)

lemma nextIteration_maxIterations [simp]:
  "m_maxIterations (nextIteration C s) = m_maxIterations s"
  by (simp add: nextIteration_def Let_def)

text \<open>
  The \<open>for\<close> loop of \<open>solve\<close>, entered after its initialisation
  \<open>m_numIterations = 1\<close>. The counter is the data member, so it lives in the state.
\<close>

function newton_loop ::
  "('a, 'l, 'f, 'v, 'm, 't) collaborators \<Rightarrow> 't \<Rightarrow> 't \<Rightarrow> ('a, 'l, 'f, 'v, 't) newton
     \<Rightarrow> ('a, 'l, 'f, 'v, 't) newton" where
  "newton_loop C initResidue initUpdate s =
     (if m_numIterations s < m_maxIterations s then
        (if termination_criteria C initResidue initUpdate (nextIteration C s)
         then (nextIteration C s)\<lparr>m_converged := True\<rparr>
         else newton_loop C initResidue initUpdate
                ((nextIteration C s)\<lparr>m_numIterations := m_numIterations (nextIteration C s) + 1\<rparr>))
      else s)"
  by pat_completeness auto
termination
  by (relation "measure (\<lambda>(C, r, u, s). nat (m_maxIterations s - m_numIterations s))") auto

declare newton_loop.simps [simp del]

definition solve ::
  "('a, 'l, 'f, 'v, 'm, 't) collaborators \<Rightarrow> ('a, 'l, 'f, 'v, 't) newton \<Rightarrow> ('a, 'l, 'f, 'v, 't) newton" where
  "solve C s =
     (let s0 = firstIteration C s;
          initResidue = m_residue s0;
          initUpdate = m_updnorm s0
      in newton_loop C initResidue initUpdate (s0\<lparr>m_numIterations := 1\<rparr>))"

subsection \<open>The iterates of the driver, without the termination test\<close>

text \<open>
  \<open>newton_seq C s k\<close> is the state after \<open>firstIteration\<close> and \<open>k\<close> calls of
  \<open>nextIteration\<close>; \<open>criterion C s k\<close> is the termination test of \<open>solve\<close> on that state,
  against the two norms that \<open>firstIteration\<close> recorded.
\<close>

definition newton_seq ::
  "('a, 'l, 'f, 'v, 'm, 't) collaborators \<Rightarrow> ('a, 'l, 'f, 'v, 't) newton \<Rightarrow> nat \<Rightarrow> ('a, 'l, 'f, 'v, 't) newton" where
  "newton_seq C s k = ((nextIteration C) ^^ k) (firstIteration C s)"

definition criterion ::
  "('a, 'l, 'f, 'v, 'm, 't) collaborators \<Rightarrow> ('a, 'l, 'f, 'v, 't) newton \<Rightarrow> nat \<Rightarrow> bool" where
  "criterion C s k =
     (below_tolerance C (m_updnorm (newton_seq C s k)) (m_updnorm (firstIteration C s)) (m_tolerance s) \<or>
      below_tolerance C (m_residue (newton_seq C s k)) (m_residue (firstIteration C s)) (m_tolerance s))"

section \<open>The element visitor (gsVisitorNonLinElasticityMixedTH.h)\<close>

subsection \<open>Matrices and vectors\<close>

text \<open>
  Dense matrices and vectors of the numeric library are functions of their indices
  (row, then column); the sizes the source gives them are carried by the visitor
  (\<open>m_dim\<close>, \<open>numActive\<close>, \<open>numActive_p\<close>). Products and traces range over the first \<open>n\<close>
  indices. Entries are exact reals: the properties below are those of the formulas the
  source evaluates, not of their rounding in \<open>T = double\<close>.
\<close>

type_synonym vec = "nat \<Rightarrow> real"
type_synonym mat = "nat \<Rightarrow> nat \<Rightarrow> real"

definition zero_m :: mat where
  "zero_m = (\<lambda>i j. 0)"

definition transpose_m :: "mat \<Rightarrow> mat" where
  "transpose_m A = (\<lambda>i j. A j i)"

definition mat_mult :: "nat \<Rightarrow> mat \<Rightarrow> mat \<Rightarrow> mat" where
  "mat_mult n A B = (\<lambda>i j. \<Sum>k<n. A i k * B k j)"

definition mat_vec :: "nat \<Rightarrow> mat \<Rightarrow> vec \<Rightarrow> vec" where
  "mat_vec n A x = (\<lambda>i. \<Sum>k<n. A i k * x k)"

definition trace_m :: "nat \<Rightarrow> mat \<Rightarrow> real" where
  "trace_m n A = (\<Sum>i<n. A i i)"

definition scale_m :: "real \<Rightarrow> mat \<Rightarrow> mat" where
  "scale_m c A = (\<lambda>i j. c * A i j)"

definition add_m :: "mat \<Rightarrow> mat \<Rightarrow> mat" where
  "add_m A B = (\<lambda>i j. A i j + B i j)"

definition sub_m :: "mat \<Rightarrow> mat \<Rightarrow> mat" where
  "sub_m A B = (\<lambda>i j. A i j - B i j)"

definition col_m :: "mat \<Rightarrow> nat \<Rightarrow> vec" where
  "col_m A j = (\<lambda>i. A i j)"

text \<open>\<open>A.row(r) = x\<close>, \<open>A(i, j) += v\<close>, \<open>x(i) += v\<close> and \<open>x.middleRows(start, len) += y\<close>.\<close>

definition set_row :: "mat \<Rightarrow> nat \<Rightarrow> vec \<Rightarrow> mat" where
  "set_row A r x = A(r := x)"

definition add_entry :: "mat \<Rightarrow> nat \<Rightarrow> nat \<Rightarrow> real \<Rightarrow> mat" where
  "add_entry A i j v = A(i := (A i)(j := A i j + v))"

definition add_at :: "vec \<Rightarrow> nat \<Rightarrow> real \<Rightarrow> vec" where
  "add_at x i v = x(i := x i + v)"

definition add_middleRows :: "vec \<Rightarrow> nat \<Rightarrow> nat \<Rightarrow> vec \<Rightarrow> vec" where
  "add_middleRows x start len y =
     (\<lambda>r. if start \<le> r \<and> r < start + len then x r + y (r - start) else x r)"

text \<open>
  Determinant, inverse and logarithm are functions of the numeric library, not of the
  repository: they are parameters of the model.
\<close>

record numlib =
  mat_determinant :: "nat \<Rightarrow> mat \<Rightarrow> real"
  mat_inverse :: "nat \<Rightarrow> mat \<Rightarrow> mat"
  math_log :: "real \<Rightarrow> real"

subsection \<open>The visitor's data\<close>

text \<open>
  The first Lame parameter may be \<open>std::numeric_limits<T>::infinity()\<close>, which the
  source tests with \<open>m_lambda < infinity\<close>.
\<close>

datatype lame = Finite real | Infinity

text \<open>What the constructor stores.\<close>

record visitor =
  m_dim :: nat
  m_lambda :: lame
  m_mu :: real
  m_rho :: real
  m_tfac :: real

text \<open>
  What \<open>evaluate\<close> stored for the current element, and what the geometry, deformation and
  pressure evaluators return at quadrature point \<open>k\<close>. \<open>physGrad_at k\<close> is the matrix that
  \<open>geoEval.transformGradients(k, bGrads, physGrad)\<close> writes (one column per active
  function).
\<close>

record element =
  numActive :: nat
  numActive_p :: nat
  actives :: "nat \<Rightarrow> nat"
  actives_p :: "nat \<Rightarrow> nat"
  bVals :: mat
  basisVals_p :: mat
  forceVals :: mat
  numQuNodes :: nat
  quWeights :: vec
  geo_measure :: "nat \<Rightarrow> real"
  geo_jacobian :: "nat \<Rightarrow> mat"
  physGrad_at :: "nat \<Rightarrow> mat"
  deformation_jacobian :: "nat \<Rightarrow> mat"
  pressure_value :: "nat \<Rightarrow> real"

text \<open>The local matrices and right-hand sides of the base class.\<close>

record locals =
  localMatK :: mat
  localMatB :: mat
  localMatC :: mat
  localRhs_u :: vec
  localRhs_p :: vec

text \<open>The kinematic data members, as the head of the quadrature loop assigns them.\<close>

record kinematics =
  weight :: real
  physGrad :: mat
  prex_k :: real
  muprex :: real
  displGrad :: mat
  defGrad :: mat
  detF :: real
  logdetF :: real
  defGrad_inv :: mat
  locResMat :: mat

subsection \<open>\<open>assemble\<close>\<close>

text \<open>\<open>defGrad(di,di) += 1.\<close> for every \<open>di\<close> below the dimension.\<close>

definition add_identity :: "nat \<Rightarrow> mat \<Rightarrow> mat" where
  "add_identity n A = fold (\<lambda>di F. add_entry F di di 1) [0..<n] A"

definition kinematics_at :: "numlib \<Rightarrow> visitor \<Rightarrow> element \<Rightarrow> nat \<Rightarrow> kinematics" where
  "kinematics_at L V E k =
     (let n = m_dim V;
          w = quWeights E k * geo_measure E k;
          defDer_k = transpose_m (deformation_jacobian E k);
          p = m_mu V * pressure_value E k;
          H = mat_mult n (mat_inverse L n (transpose_m (geo_jacobian E k))) defDer_k;
          F = add_identity n (transpose_m H);
          J = mat_determinant L n F;
          Fi = mat_inverse L n F
      in \<lparr>weight = w,
          physGrad = physGrad_at E k,
          prex_k = p,
          muprex = m_mu V - p,
          displGrad = H,
          defGrad = F,
          detF = J,
          logdetF = w * m_mu V * math_log L J,
          defGrad_inv = Fi,
          locResMat = add_m (scale_m (w * m_mu V) (sub_m F (transpose_m Fi)))
                            (scale_m (w * p) (transpose_m Fi))\<rparr>)"

text \<open>
  \<open>gradU\<close> (and \<open>gradV\<close>): the zero matrix with row \<open>di\<close> set to the physical gradient of
  function \<open>i\<close>.
\<close>

definition gradU_of :: "kinematics \<Rightarrow> nat \<Rightarrow> nat \<Rightarrow> mat" where
  "gradU_of q i di = set_row zero_m di (col_m (physGrad q) i)"

definition locKtgVal :: "visitor \<Rightarrow> kinematics \<Rightarrow> nat \<Rightarrow> nat \<Rightarrow> nat \<Rightarrow> nat \<Rightarrow> real" where
  "locKtgVal V q i di j dj =
     (let n = m_dim V;
          gradU = gradU_of q i di;
          gradV = gradU_of q j dj;
          defGrad_inv_gradU = mat_mult n (defGrad_inv q) gradU;
          defGrad_inv_gradV = mat_mult n (defGrad_inv q) gradV
      in m_mu V * trace_m n (mat_mult n (transpose_m gradU) gradV)
         + muprex q * trace_m n (mat_mult n defGrad_inv_gradU defGrad_inv_gradV))"

text \<open>The loop over the second basis function \<open>j \<ge> i\<close> and its components \<open>dj\<close>.\<close>

definition tangent_K :: "visitor \<Rightarrow> element \<Rightarrow> kinematics \<Rightarrow> nat \<Rightarrow> nat \<Rightarrow> locals \<Rightarrow> locals" where
  "tangent_K V E q i di =
     fold (\<lambda>j. fold (\<lambda>dj s.
             s\<lparr>localMatK := add_entry (localMatK s) (di * numActive E + i) (dj * numActive E + j)
                               (weight q * locKtgVal V q i di j dj)\<rparr>)
           [0..<m_dim V])
       [i..<numActive E]"

text \<open>The loop over the pressure functions \<open>j\<close>.\<close>

definition tangent_B :: "visitor \<Rightarrow> element \<Rightarrow> nat \<Rightarrow> kinematics \<Rightarrow> nat \<Rightarrow> nat \<Rightarrow> locals \<Rightarrow> locals" where
  "tangent_B V E k q i di =
     fold (\<lambda>j s.
             s\<lparr>localMatB := add_entry (localMatB s) j (di * numActive E + i)
                  (weight q * m_mu V
                     * trace_m (m_dim V) (mat_mult (m_dim V) (defGrad_inv q) (gradU_of q i di))
                     * basisVals_p E j k)\<rparr>)
       [0..<numActive_p E]"

text \<open>The body of the loop over the components \<open>di\<close> of the first basis function \<open>i\<close>.\<close>

definition displacement_step ::
  "visitor \<Rightarrow> element \<Rightarrow> nat \<Rightarrow> kinematics \<Rightarrow> nat \<Rightarrow> nat \<Rightarrow> locals \<Rightarrow> locals" where
  "displacement_step V E k q i di s =
     (let locResVec = mat_vec (m_dim V) (locResMat q) (col_m (physGrad q) i);
          s1 = s\<lparr>localRhs_u := add_at (localRhs_u s) (di * numActive E + i) (- locResVec di)\<rparr>;
          s2 = tangent_K V E q i di s1
      in tangent_B V E k q i di s2)"

definition displacement_loop :: "visitor \<Rightarrow> element \<Rightarrow> nat \<Rightarrow> kinematics \<Rightarrow> locals \<Rightarrow> locals" where
  "displacement_loop V E k q =
     fold (\<lambda>i. fold (displacement_step V E k q i) [0..<m_dim V]) [0..<numActive E]"

text \<open>
  The loop over the pressure functions \<open>i\<close>. \<open>nearmup\<close> is assigned before the loop under
  the same test as its two uses. It is a quotient by \<open>m_lambda\<close>, and its first use divides
  it by \<open>m_mu\<close>: for a zero divisor the code's quotient is an infinity or not a number,
  which the reals do not have, so the model is that of nonzero \<open>m_mu\<close> and nonzero finite
  \<open>m_lambda\<close>, and the properties below assume both.
\<close>

definition pressure_step :: "visitor \<Rightarrow> element \<Rightarrow> nat \<Rightarrow> kinematics \<Rightarrow> nat \<Rightarrow> locals \<Rightarrow> locals" where
  "pressure_step V E k q i s =
     (let s1 = s\<lparr>localRhs_p := add_at (localRhs_p s) i (- (logdetF q * basisVals_p E i k))\<rparr>
      in case m_lambda V of
           Infinity \<Rightarrow> s1
         | Finite lam \<Rightarrow>
             (let nearmup = m_mu V * m_mu V / lam * weight q;
                  s2 = s1\<lparr>localRhs_p :=
                         add_at (localRhs_p s1) i (nearmup / m_mu V * prex_k q * basisVals_p E i k)\<rparr>
              in fold (\<lambda>j s.
                     s\<lparr>localMatC := add_entry (localMatC s) i j
                                       (- (nearmup * basisVals_p E i k * basisVals_p E j k))\<rparr>)
                   [i..<numActive_p E] s2))"

definition pressure_loop :: "visitor \<Rightarrow> element \<Rightarrow> nat \<Rightarrow> kinematics \<Rightarrow> locals \<Rightarrow> locals" where
  "pressure_loop V E k q = fold (pressure_step V E k q) [0..<numActive_p E]"

text \<open>The body force, one block of \<open>numActive\<close> rows per component.\<close>

definition force_loop :: "visitor \<Rightarrow> element \<Rightarrow> nat \<Rightarrow> kinematics \<Rightarrow> locals \<Rightarrow> locals" where
  "force_loop V E k q =
     fold (\<lambda>j s.
             s\<lparr>localRhs_u := add_middleRows (localRhs_u s) (j * numActive E) (numActive E)
                  (\<lambda>r. weight q * m_rho V * forceVals E j k * m_tfac V * bVals E r k)\<rparr>)
       [0..<m_dim V]"

text \<open>One quadrature node, and the loop over all of them.\<close>

definition assemble_node :: "numlib \<Rightarrow> visitor \<Rightarrow> element \<Rightarrow> nat \<Rightarrow> locals \<Rightarrow> locals" where
  "assemble_node L V E k s =
     (let q = kinematics_at L V E k
      in force_loop V E k q (pressure_loop V E k q (displacement_loop V E k q s)))"

definition assemble_nodes :: "numlib \<Rightarrow> visitor \<Rightarrow> element \<Rightarrow> locals \<Rightarrow> locals" where
  "assemble_nodes L V E = fold (assemble_node L V E) [0..<numQuNodes E]"

text \<open>
  The outcomes a call can have. The member function contains no \<open>throw\<close>, no assertion
  and no \<open>return\<close>: control leaves it at the end of the quadrature loop only, so the
  model has the one branch.
\<close>

datatype error = InvalidConfiguration

definition assemble :: "numlib \<Rightarrow> visitor \<Rightarrow> element \<Rightarrow> locals \<Rightarrow> error + locals" where
  "assemble L V E s = Inr (assemble_nodes L V E s)"

subsection \<open>\<open>localToGlobal\<close>\<close>

text \<open>
  A degree-of-freedom mapper of the framework: the global index of a patch-local one, and
  the test for a free index. The visitor receives one mapper per displacement component
  and one for the pressure, indexed \<open>0 .. m_dim\<close>.
\<close>

record dofMapper =
  index_of :: "nat \<Rightarrow> nat \<Rightarrow> nat"
  is_free_index :: "nat \<Rightarrow> bool"

record global =
  sysMatrix :: mat
  rhsMatrix :: vec

text \<open>
  \<open>ci_actives[ci](ai)\<close>: the displacement components map \<open>actives\<close>, the last entry maps
  \<open>actives_p\<close>.
\<close>

definition ci_actives :: "(nat \<Rightarrow> dofMapper) \<Rightarrow> nat \<Rightarrow> visitor \<Rightarrow> element \<Rightarrow> nat \<Rightarrow> nat \<Rightarrow> nat" where
  "ci_actives mappers patchIndex V E ci ai =
     (if ci = m_dim V then index_of (mappers ci) (actives_p E ai) patchIndex
      else index_of (mappers ci) (actives E ai) patchIndex)"

definition add_coeff :: "global \<Rightarrow> nat \<Rightarrow> nat \<Rightarrow> real \<Rightarrow> global" where
  "add_coeff G i j v = G\<lparr>sysMatrix := add_entry (sysMatrix G) i j v\<rparr>"

text \<open>Block K: columns \<open>aj \<ge> ai\<close>, all components \<open>cj\<close>, mirrored when \<open>aj > ai\<close>.\<close>

definition scatter_K ::
  "(nat \<Rightarrow> dofMapper) \<Rightarrow> nat \<Rightarrow> visitor \<Rightarrow> element \<Rightarrow> locals \<Rightarrow> nat \<Rightarrow> nat \<Rightarrow> global \<Rightarrow> global" where
  "scatter_K mappers patchIndex V E s ci ai =
     (let gi = ci * numActive E + ai;
          ii = ci_actives mappers patchIndex V E ci ai
      in fold (\<lambda>aj. fold (\<lambda>cj G.
                 (let gj = cj * numActive E + aj;
                      jj = ci_actives mappers patchIndex V E cj aj
                  in if is_free_index (mappers cj) jj then
                       (let G1 = add_coeff G ii jj (localMatK s gi gj)
                        in if aj > ai then add_coeff G1 jj ii (localMatK s gi gj) else G1)
                     else G))
               [0..<m_dim V])
           [ai..<numActive E])"

text \<open>Blocks B and its transpose.\<close>

definition scatter_B ::
  "(nat \<Rightarrow> dofMapper) \<Rightarrow> nat \<Rightarrow> visitor \<Rightarrow> element \<Rightarrow> locals \<Rightarrow> nat \<Rightarrow> nat \<Rightarrow> global \<Rightarrow> global" where
  "scatter_B mappers patchIndex V E s ci ai =
     (let gi = ci * numActive E + ai;
          ii = ci_actives mappers patchIndex V E ci ai;
          cj = m_dim V
      in fold (\<lambda>aj G.
                 (let gj = aj;
                      jj = ci_actives mappers patchIndex V E cj aj
                  in if is_free_index (mappers cj) jj then
                       add_coeff (add_coeff G ii jj (localMatB s gj gi)) jj ii (localMatB s gj gi)
                     else G))
           [0..<numActive_p E])"

definition scatter_u ::
  "(nat \<Rightarrow> dofMapper) \<Rightarrow> nat \<Rightarrow> visitor \<Rightarrow> element \<Rightarrow> locals \<Rightarrow> nat \<Rightarrow> nat \<Rightarrow> global \<Rightarrow> global" where
  "scatter_u mappers patchIndex V E s ci ai G =
     (let gi = ci * numActive E + ai;
          ii = ci_actives mappers patchIndex V E ci ai
      in if is_free_index (mappers ci) ii then
           scatter_B mappers patchIndex V E s ci ai
             (scatter_K mappers patchIndex V E s ci ai
                (G\<lparr>rhsMatrix := add_at (rhsMatrix G) ii (localRhs_u s gi)\<rparr>))
         else G)"

text \<open>Block C: columns \<open>aj \<ge> ai\<close>, mirrored when \<open>aj > ai\<close>.\<close>

definition scatter_p ::
  "(nat \<Rightarrow> dofMapper) \<Rightarrow> nat \<Rightarrow> visitor \<Rightarrow> element \<Rightarrow> locals \<Rightarrow> nat \<Rightarrow> global \<Rightarrow> global" where
  "scatter_p mappers patchIndex V E s ai G =
     (let ci = m_dim V;
          gi = ai;
          ii = ci_actives mappers patchIndex V E ci ai
      in if is_free_index (mappers ci) ii then
           fold (\<lambda>aj G.
                   (let gj = aj;
                        jj = ci_actives mappers patchIndex V E ci aj
                    in if is_free_index (mappers ci) jj then
                         (let G1 = add_coeff G ii jj (localMatC s gi gj)
                          in if aj > ai then add_coeff G1 jj ii (localMatC s gi gj) else G1)
                       else G))
             [ai..<numActive_p E]
             (G\<lparr>rhsMatrix := add_at (rhsMatrix G) ii (localRhs_p s gi)\<rparr>)
         else G)"

text \<open>
  The whole member function. The argument \<open>eliminatedDofs\<close> is part of the signature and
  is not read.
\<close>

definition localToGlobal ::
  "(nat \<Rightarrow> dofMapper) \<Rightarrow> mat \<Rightarrow> nat \<Rightarrow> visitor \<Rightarrow> element \<Rightarrow> locals \<Rightarrow> global \<Rightarrow> global" where
  "localToGlobal mappers eliminatedDofs patchIndex V E s G =
     fold (scatter_p mappers patchIndex V E s) [0..<numActive_p E]
       (fold (\<lambda>ci. fold (scatter_u mappers patchIndex V E s ci) [0..<numActive E]) [0..<m_dim V] G)"

subsection \<open>The two assembler calls that change the fields\<close>

text \<open>
  Modelled from the spec: \<open>constructSolution\<close> of the assembler class
  (gsElasticityMixedTHAssembler, whose source is not among the modelled files). The spec
  has the first iteration "replace current solution by the update" and calls it a "full
  replacement": the field written does not depend on the field passed in. How a solution
  vector decodes into the field of unknown \<open>unk\<close> is the parameter \<open>part\<close>.
\<close>

definition constructSolution_spec :: "(int \<Rightarrow> 'v \<Rightarrow> 'f) \<Rightarrow> 'a \<Rightarrow> 'v \<Rightarrow> 'f \<Rightarrow> int \<Rightarrow> 'f" where
  "constructSolution_spec part a v result unk = part unk v"

text \<open>
  Modelled from the spec: \<open>updateSolution\<close> of the same absent class, the "additive update
  via a separate \<open>updateSolution\<close> call": both fields are incremented by their parts of
  the vector.
\<close>

definition updateSolution_spec ::
  "(int \<Rightarrow> 'v \<Rightarrow> 'f::plus) \<Rightarrow> 'a \<Rightarrow> 'v \<Rightarrow> 'f \<Rightarrow> 'f \<Rightarrow> 'f \<times> 'f" where
  "updateSolution_spec part a v sol pres = (sol + part 0 v, pres + part 1 v)"

definition with_spec_assembler ::
  "(int \<Rightarrow> 'v \<Rightarrow> 'f::plus) \<Rightarrow> ('a, 'l, 'f, 'v, 'm, 't) collaborators \<Rightarrow> ('a, 'l, 'f, 'v, 'm, 't) collaborators" where
  "with_spec_assembler part C =
     C\<lparr>asm_constructSolution := constructSolution_spec part,
       asm_updateSolution := updateSolution_spec part\<rparr>"

subsection \<open>A scalar example\<close>

text \<open>
  Newton's method for \<open>x\<^sup>2 = 0\<close> in one unknown: the first system is \<open>1 \<cdot> u = 1\<close>, every
  later one is \<open>2x \<cdot> u = - x\<^sup>2\<close>; \<open>T\<close> is the reals with their exact division. The
  iterates are \<open>1, 1/2, 1/4, 1/8\<close>, the update norms \<open>1, 1/2, 1/4, 1/8\<close> and the residual
  norms \<open>1, 1, 1/4, 1/16\<close>. With tolerance \<open>1/10\<close> the residual test passes first, at
  iteration 3.
\<close>

definition toy_collab :: "(real \<times> real, real, real, real, real, real) collaborators" where
  "toy_collab =
     \<lparr>asm_assemble = (\<lambda>a. (1, 1)),
      asm_assemble_at = (\<lambda>x p a. (2 * x, - (x * x))),
      asm_matrix = fst,
      asm_rhs = snd,
      asm_constructSolution = (\<lambda>a u f unk. if unk = 0 then u else 0),
      asm_updateSolution = (\<lambda>a u x p. (x + u, p + 0)),
      lu_compute = (\<lambda>m l. m),
      lu_factorize = (\<lambda>m l. m),
      lu_solve = (\<lambda>l v. v / l),
      vec_norm = abs,
      t_div = (/),
      t_abs = abs,
      t_less = (<)\<rparr>"

definition toy_newton :: "int \<Rightarrow> (real \<times> real, real, real, real, real) newton" where
  "toy_newton maxIter =
     \<lparr>m_assembler = (0, 0), m_curSolution = 5, m_curPressure = 7, m_updateVector = 0,
      m_solver = 0, m_numIterations = 0, m_maxIterations = maxIter, m_tolerance = 1 / 10,
      m_converged = False, m_residue = 0, m_updnorm = 0\<rparr>"

subsection \<open>Notions used to state the visitor's properties\<close>

text \<open>
  The global indices that \<open>localToGlobal\<close> resolves for a local degree of freedom and
  finds free: per displacement component over \<open>actives\<close>, and for the pressure over
  \<open>actives_p\<close>.
\<close>

definition free_dofs :: "(nat \<Rightarrow> dofMapper) \<Rightarrow> nat \<Rightarrow> visitor \<Rightarrow> element \<Rightarrow> nat \<Rightarrow> nat \<Rightarrow> nat list" where
  "free_dofs mappers patchIndex V E ci n =
     filter (is_free_index (mappers ci)) (map (ci_actives mappers patchIndex V E ci) [0..<n])"

definition free_indices :: "(nat \<Rightarrow> dofMapper) \<Rightarrow> nat \<Rightarrow> visitor \<Rightarrow> element \<Rightarrow> nat set" where
  "free_indices mappers patchIndex V E =
     set (concat (map (\<lambda>ci. free_dofs mappers patchIndex V E ci (numActive E)) [0..<m_dim V]))
     \<union> set (free_dofs mappers patchIndex V E (m_dim V) (numActive_p E))"

text \<open>What one global index sees of the system: an entry of its row, an entry of its column, its row of the right-hand side.\<close>

definition view :: "nat \<Rightarrow> nat \<Rightarrow> nat \<Rightarrow> global \<Rightarrow> real \<times> real \<times> real" where
  "view g r c G = (sysMatrix G g c, sysMatrix G r g, rhsMatrix G g)"

text \<open>
  The factor \<open>nearmup\<close> of the near-incompressibility terms, with 0 standing for "not
  assigned and not used" when \<open>m_lambda\<close> is infinite.
\<close>

definition penalty :: "visitor \<Rightarrow> kinematics \<Rightarrow> real" where
  "penalty V q = (case m_lambda V of Infinity \<Rightarrow> 0 | Finite lam \<Rightarrow> m_mu V * m_mu V / lam * weight q)"

text \<open>
  What the spec says one quadrature node \<open>k\<close> adds to entry \<open>i\<close> of the local pressure
  residual: minus \<open>weight * mu * log(J) * psi_i\<close>, and for a finite \<open>lambda\<close> the penalty
  \<open>(mu\<^sup>2 / lambda) * weight * p * psi_i\<close>.
\<close>

definition pressure_term :: "numlib \<Rightarrow> visitor \<Rightarrow> element \<Rightarrow> nat \<Rightarrow> nat \<Rightarrow> real" where
  "pressure_term L V E i k =
     - (quWeights E k * geo_measure E k * m_mu V * math_log L (detF (kinematics_at L V E k))
          * basisVals_p E i k)
     + (case m_lambda V of
          Infinity \<Rightarrow> 0
        | Finite lam \<Rightarrow>
            (m_mu V)\<^sup>2 / lam * (quWeights E k * geo_measure E k) * pressure_value E k
              * basisVals_p E i k)"


text \<open>
  How far the system matrix is from symmetric at \<open>(i, j)\<close>, the change of that distance
  by one write of \<open>v\<close> at \<open>(a, b)\<close>, and the writes of \<open>scatter_K\<close> that are not mirrored:
  those of function \<open>ai\<close> against itself, for components \<open>ci\<close> and \<open>cj\<close>.
\<close>

definition skew :: "nat \<Rightarrow> nat \<Rightarrow> global \<Rightarrow> real" where
  "skew i j G = sysMatrix G i j - sysMatrix G j i"



subsection \<open>A plane example\<close>

text \<open>
  Two-by-two matrices, with the determinant and the inverse by cofactors and the natural
  logarithm for the numeric library; an element with two displacement functions, one
  pressure function and two quadrature nodes (weights 1 and 1/2, the same data at both)
  on the unit reference map, stretched by \<open>g\<close>
  in the first direction, so that \<open>F = diag(1 + g, 1)\<close>; mappers that pin the first
  displacement function (global indices from 100 on are eliminated).
\<close>

definition mat2 :: "real \<Rightarrow> real \<Rightarrow> real \<Rightarrow> real \<Rightarrow> mat" where
  "mat2 a b c d =
     (\<lambda>i j. if i = 0 \<and> j = 0 then a else if i = 0 \<and> j = 1 then b
            else if i = 1 \<and> j = 0 then c else if i = 1 \<and> j = 1 then d else 0)"

definition lib2 :: numlib where
  "lib2 =
     \<lparr>mat_determinant = (\<lambda>n A. A 0 0 * A 1 1 - A 0 1 * A 1 0),
      mat_inverse = (\<lambda>n A. mat2 (A 1 1 / (A 0 0 * A 1 1 - A 0 1 * A 1 0))
                               (- A 0 1 / (A 0 0 * A 1 1 - A 0 1 * A 1 0))
                               (- A 1 0 / (A 0 0 * A 1 1 - A 0 1 * A 1 0))
                               (A 0 0 / (A 0 0 * A 1 1 - A 0 1 * A 1 0))),
      math_log = ln\<rparr>"

definition plane :: "lame \<Rightarrow> visitor" where
  "plane lam = \<lparr>m_dim = 2, m_lambda = lam, m_mu = 2, m_rho = 1, m_tfac = 1\<rparr>"

definition stretched :: "real \<Rightarrow> element" where
  "stretched g =
     \<lparr>numActive = 2, numActive_p = 1, actives = (\<lambda>a. a), actives_p = (\<lambda>a. a),
      bVals = (\<lambda>i k. 1 / 2), basisVals_p = (\<lambda>i k. 1),
      forceVals = (\<lambda>j k. if j = 1 then - 1 else 0),
      numQuNodes = 2, quWeights = (\<lambda>k. if k = 0 then 1 else 1 / 2), geo_measure = (\<lambda>k. 1),
      geo_jacobian = (\<lambda>k. mat2 1 0 0 1),
      physGrad_at = (\<lambda>k. mat2 (- 1) 1 0 2),
      deformation_jacobian = (\<lambda>k. mat2 g 0 0 0),
      pressure_value = (\<lambda>k. 3)\<rparr>"

definition zero_locals :: locals where
  "zero_locals =
     \<lparr>localMatK = zero_m, localMatB = zero_m, localMatC = zero_m,
      localRhs_u = (\<lambda>i. 0), localRhs_p = (\<lambda>i. 0)\<rparr>"

definition pinned :: "nat \<Rightarrow> dofMapper" where
  "pinned ci =
     \<lparr>index_of = (\<lambda>l patch. if ci = 2 then 2 else if l = 0 then 100 + ci else ci),
      is_free_index = (\<lambda>g. g < 100)\<rparr>"

definition unit_locals :: locals where
  "unit_locals =
     \<lparr>localMatK = (\<lambda>i j. 1), localMatB = (\<lambda>i j. 1), localMatC = (\<lambda>i j. 1),
      localRhs_u = (\<lambda>i. 1), localRhs_p = (\<lambda>i. 1)\<rparr>"


definition zero_global :: global where
  "zero_global = \<lparr>sysMatrix = zero_m, rhsMatrix = (\<lambda>i. 0)\<rparr>"


section \<open>Properties of the Newton driver\<close>

subsection \<open>The loop of \<open>solve\<close>\<close>

lemma nextIteration_tolerance [simp]:
  "m_tolerance (nextIteration C s) = m_tolerance s"
  by (simp add: nextIteration_def Let_def)

lemma nextIteration_converged [simp]:
  "m_converged (nextIteration C s) = m_converged s"
  by (simp add: nextIteration_def Let_def)

lemma nextIteration_set_numIterations:
  "nextIteration C (s\<lparr>m_numIterations := n\<rparr>) = (nextIteration C s)\<lparr>m_numIterations := n\<rparr>"
  by (simp add: nextIteration_def Let_def)

lemma funpow_nextIteration_set_numIterations:
  "(nextIteration C ^^ k) (s\<lparr>m_numIterations := n\<rparr>) = ((nextIteration C ^^ k) s)\<lparr>m_numIterations := n\<rparr>"
  by (induction k) (simp_all add: nextIteration_set_numIterations)

lemma funpow_nextIteration_fields [simp]:
  "m_numIterations ((nextIteration C ^^ k) s) = m_numIterations s"
  "m_maxIterations ((nextIteration C ^^ k) s) = m_maxIterations s"
  "m_tolerance ((nextIteration C ^^ k) s) = m_tolerance s"
  "m_converged ((nextIteration C ^^ k) s) = m_converged s"
  by (induction k) simp_all

lemma nextIteration_shift:
  "(nextIteration C ^^ j) ((nextIteration C t)\<lparr>m_numIterations := n\<rparr>) =
     ((nextIteration C ^^ Suc j) t)\<lparr>m_numIterations := n\<rparr>"
  by (simp add: funpow_nextIteration_set_numIterations funpow_Suc_right del: funpow.simps)

lemma termination_criteria_set_numIterations [simp]:
  "termination_criteria C r u (s\<lparr>m_numIterations := n\<rparr>) = termination_criteria C r u s"
  by (simp add: termination_criteria_def)

lemma newton_loop_exhausted:
  "m_numIterations t = n \<Longrightarrow>
   (\<And>j. 1 \<le> j \<Longrightarrow> n + int j - 1 < m_maxIterations t \<Longrightarrow>
      \<not> termination_criteria C r u ((nextIteration C ^^ j) t)) \<Longrightarrow>
   newton_loop C r u t =
     ((nextIteration C ^^ nat (m_maxIterations t - n)) t)\<lparr>m_numIterations := max n (m_maxIterations t)\<rparr>"
proof (induction C r u t arbitrary: n rule: newton_loop.induct)
  case (1 C r u t)
  show ?case
  proof (cases "m_numIterations t < m_maxIterations t")
    case False
    with "1.prems"(1) have "nat (m_maxIterations t - n) = 0" "max n (m_maxIterations t) = m_numIterations t"
      by auto
    with False show ?thesis
      by (simp add: newton_loop.simps [of C r u t])
  next
    case True
    let ?t' = "(nextIteration C t)\<lparr>m_numIterations := m_numIterations (nextIteration C t) + 1\<rparr>"
    have nc: "\<not> termination_criteria C r u (nextIteration C t)"
      using "1.prems"(2) [of 1] True "1.prems"(1) by simp
    have step: "newton_loop C r u t = newton_loop C r u ?t'"
      using True nc by (simp add: newton_loop.simps [of C r u t])
    have later: "\<not> termination_criteria C r u ((nextIteration C ^^ j) ?t')"
      if "1 \<le> j" "(n + 1) + int j - 1 < m_maxIterations ?t'" for j
    proof -
      have "\<not> termination_criteria C r u ((nextIteration C ^^ Suc j) t)"
        using that by (intro "1.prems"(2)) simp_all
      then show ?thesis
        by (simp add: nextIteration_shift del: funpow.simps)
    qed
    have "newton_loop C r u ?t' =
      ((nextIteration C ^^ nat (m_maxIterations ?t' - (n + 1))) ?t')\<lparr>m_numIterations := max (n + 1) (m_maxIterations ?t')\<rparr>"
      using True nc "1.prems"(1) later by (intro "1.IH") simp_all
    moreover have "nat (m_maxIterations t - n) = Suc (nat (m_maxIterations t - (n + 1)))"
      using True "1.prems"(1) by simp
    moreover have "max (n + 1) (m_maxIterations t) = max n (m_maxIterations t)"
      using True "1.prems"(1) by simp
    ultimately show ?thesis
      by (simp add: step nextIteration_shift del: funpow.simps)
  qed
qed

lemma newton_loop_converges:
  "m_numIterations t = n \<Longrightarrow> n + int k < m_maxIterations t \<Longrightarrow>
   termination_criteria C r u ((nextIteration C ^^ Suc k) t) \<Longrightarrow>
   (\<And>j. 1 \<le> j \<Longrightarrow> j \<le> k \<Longrightarrow> \<not> termination_criteria C r u ((nextIteration C ^^ j) t)) \<Longrightarrow>
   newton_loop C r u t =
     ((nextIteration C ^^ Suc k) t)\<lparr>m_numIterations := n + int k, m_converged := True\<rparr>"
proof (induction k arbitrary: t n)
  case 0
  then show ?case
    by (simp add: newton_loop.simps [of C r u t])
next
  case (Suc k)
  let ?t' = "(nextIteration C t)\<lparr>m_numIterations := m_numIterations (nextIteration C t) + 1\<rparr>"
  have nc: "\<not> termination_criteria C r u (nextIteration C t)"
    using Suc.prems(4) [of 1] by simp
  have step: "newton_loop C r u t = newton_loop C r u ?t'"
    using Suc.prems(1,2) nc by (simp add: newton_loop.simps [of C r u t])
  have "newton_loop C r u ?t' =
     ((nextIteration C ^^ Suc k) ?t')\<lparr>m_numIterations := (n + 1) + int k, m_converged := True\<rparr>"
  proof (rule Suc.IH)
    show "m_numIterations ?t' = n + 1" using Suc.prems(1) by simp
    show "n + 1 + int k < m_maxIterations ?t'" using Suc.prems(2) by simp
    show "termination_criteria C r u ((nextIteration C ^^ Suc k) ?t')"
      using Suc.prems(3) by (simp add: nextIteration_shift del: funpow.simps)
    show "\<not> termination_criteria C r u ((nextIteration C ^^ j) ?t')" if "1 \<le> j" "j \<le> k" for j
      using Suc.prems(4) [of "Suc j"] that
      by (simp add: nextIteration_shift del: funpow.simps)
  qed
  then show ?case
    by (simp add: step nextIteration_shift add.commute add.left_commute del: funpow.simps)
qed


lemma firstIteration_fields [simp]:
  "m_maxIterations (firstIteration C s) = m_maxIterations s"
  "m_tolerance (firstIteration C s) = m_tolerance s"
  "m_converged (firstIteration C s) = False"
  by (simp_all add: firstIteration_def Let_def)

lemma newton_seq_fields [simp]:
  "m_maxIterations (newton_seq C s k) = m_maxIterations s"
  "m_tolerance (newton_seq C s k) = m_tolerance s"
  "m_converged (newton_seq C s k) = False"
  by (simp_all add: newton_seq_def)

lemma solve_unfold:
  "solve C s =
     newton_loop C (m_residue (firstIteration C s)) (m_updnorm (firstIteration C s))
       ((firstIteration C s)\<lparr>m_numIterations := 1\<rparr>)"
  by (simp add: solve_def Let_def)

lemma criteria_criterion:
  "termination_criteria C (m_residue (firstIteration C s)) (m_updnorm (firstIteration C s))
     ((nextIteration C ^^ k) ((firstIteration C s)\<lparr>m_numIterations := 1\<rparr>)) = criterion C s k"
  by (simp add: funpow_nextIteration_set_numIterations termination_criteria_def criterion_def
      newton_seq_def del: funpow.simps)

lemma solve_exhausted:
  assumes "\<And>k. 1 \<le> k \<Longrightarrow> int k < m_maxIterations s \<Longrightarrow> \<not> criterion C s k"
  shows "solve C s =
    (newton_seq C s (nat (m_maxIterations s - 1)))\<lparr>m_numIterations := max 1 (m_maxIterations s)\<rparr>"
proof -
  let ?t = "(firstIteration C s)\<lparr>m_numIterations := 1\<rparr>"
  let ?r = "m_residue (firstIteration C s)" and ?u = "m_updnorm (firstIteration C s)"
  have "newton_loop C ?r ?u ?t =
     ((nextIteration C ^^ nat (m_maxIterations ?t - 1)) ?t)\<lparr>m_numIterations := max 1 (m_maxIterations ?t)\<rparr>"
  proof (rule newton_loop_exhausted)
    show "m_numIterations ?t = 1" by simp
    show "\<not> termination_criteria C ?r ?u ((nextIteration C ^^ j) ?t)"
      if "1 \<le> j" "1 + int j - 1 < m_maxIterations ?t" for j
      using assms [of j] that by (simp add: criteria_criterion del: funpow.simps)
  qed
  then show ?thesis
    by (simp add: solve_unfold funpow_nextIteration_set_numIterations newton_seq_def del: funpow.simps)
qed

lemma solve_converges:
  assumes "int (Suc k) < m_maxIterations s" and "criterion C s (Suc k)"
    and "\<And>j. 1 \<le> j \<Longrightarrow> j \<le> k \<Longrightarrow> \<not> criterion C s j"
  shows "solve C s = (newton_seq C s (Suc k))\<lparr>m_numIterations := int (Suc k), m_converged := True\<rparr>"
proof -
  let ?t = "(firstIteration C s)\<lparr>m_numIterations := 1\<rparr>"
  let ?r = "m_residue (firstIteration C s)" and ?u = "m_updnorm (firstIteration C s)"
  have "newton_loop C ?r ?u ?t =
     ((nextIteration C ^^ Suc k) ?t)\<lparr>m_numIterations := 1 + int k, m_converged := True\<rparr>"
  proof (rule newton_loop_converges)
    show "m_numIterations ?t = 1" by simp
    show "1 + int k < m_maxIterations ?t" using assms(1) by simp
    show "termination_criteria C ?r ?u ((nextIteration C ^^ Suc k) ?t)"
      using assms(2) by (simp only: criteria_criterion)
    show "\<not> termination_criteria C ?r ?u ((nextIteration C ^^ j) ?t)" if "1 \<le> j" "j \<le> k" for j
      using assms(3) [of j] that by (simp only: criteria_criterion) simp
  qed
  then show ?thesis
    by (simp add: solve_unfold funpow_nextIteration_set_numIterations newton_seq_def del: funpow.simps)
qed

subsection \<open>The scalar example, evaluated\<close>

lemma newton_seq_step:
  "newton_seq C s 0 = firstIteration C s"
  "newton_seq C s 1 = nextIteration C (newton_seq C s 0)"
  "newton_seq C s 2 = nextIteration C (newton_seq C s 1)"
  "newton_seq C s 3 = nextIteration C (newton_seq C s 2)"
  by (simp_all add: newton_seq_def numeral_2_eq_2 numeral_3_eq_3)

lemma toy_seq_0:
  "newton_seq toy_collab (toy_newton m) 0 =
     (toy_newton m)\<lparr>m_assembler := (1, 1), m_curSolution := 1, m_curPressure := 0,
        m_updateVector := 1, m_solver := 1, m_residue := 1, m_updnorm := 1\<rparr>"
  unfolding newton_seq_step
  by (simp add: firstIteration_def toy_collab_def toy_newton_def Let_def)

lemma toy_seq_1:
  "newton_seq toy_collab (toy_newton m) 1 =
     (toy_newton m)\<lparr>m_assembler := (2, - 1), m_curSolution := 1 / 2, m_curPressure := 0,
        m_updateVector := - (1 / 2), m_solver := 2, m_residue := 1, m_updnorm := 1 / 2\<rparr>"
  unfolding newton_seq_step(2) toy_seq_0
  by (simp add: nextIteration_def toy_collab_def toy_newton_def Let_def)

lemma toy_seq_2:
  "newton_seq toy_collab (toy_newton m) 2 =
     (toy_newton m)\<lparr>m_assembler := (1, - (1 / 4)), m_curSolution := 1 / 4, m_curPressure := 0,
        m_updateVector := - (1 / 4), m_solver := 1, m_residue := 1 / 4, m_updnorm := 1 / 4\<rparr>"
  unfolding newton_seq_step(3) toy_seq_1
  by (simp add: nextIteration_def toy_collab_def toy_newton_def Let_def)

lemma toy_seq_3:
  "newton_seq toy_collab (toy_newton m) 3 =
     (toy_newton m)\<lparr>m_assembler := (1 / 2, - (1 / 16)), m_curSolution := 1 / 8, m_curPressure := 0,
        m_updateVector := - (1 / 8), m_solver := 1 / 2, m_residue := 1 / 16, m_updnorm := 1 / 8\<rparr>"
  unfolding newton_seq_step(4) toy_seq_2
  by (simp add: nextIteration_def toy_collab_def toy_newton_def Let_def)

lemma toy_criterion:
  "\<not> criterion toy_collab (toy_newton m) 1"
  "\<not> criterion toy_collab (toy_newton m) 2"
  "criterion toy_collab (toy_newton m) 3"
  unfolding criterion_def toy_seq_1 toy_seq_2 toy_seq_3 newton_seq_step(1) [symmetric] toy_seq_0
  by (simp_all add: below_tolerance_def toy_newton_def toy_collab_def)

lemma toy_update_test_fails_at_3:
  "\<not> below_tolerance toy_collab (m_updnorm (newton_seq toy_collab (toy_newton m) 3))
       (m_updnorm (firstIteration toy_collab (toy_newton m))) (m_tolerance (toy_newton m))"
  unfolding toy_seq_3 newton_seq_step(1) [symmetric] toy_seq_0
  by (simp add: below_tolerance_def toy_newton_def toy_collab_def)

section \<open>The claims about the Newton driver\<close>

text \<open>
  Claim C5. \<open>solve\<close> leaves the converged flag true exactly when, after some iteration
  with index \<open>k \<ge> 1\<close> (and below the iteration maximum), the update norm or the residual
  norm, each divided by the norm that the first iteration recorded, is below the
  tolerance in absolute value, the quotient, the absolute value and the comparison being
  those of the coefficient type; either test suffices. The loop exits at the first such
  iteration: the state returned is the one after \<open>k\<close> calls of \<open>nextIteration\<close>, with the
  counter at \<open>k\<close>.
\<close>

theorem solve_converged_iff_criterion:
  "(converged (solve C s) \<longleftrightarrow> (\<exists>k. 1 \<le> k \<and> int k < m_maxIterations s \<and> criterion C s k)) \<and>
   (\<forall>k. 1 \<le> k \<and> int k < m_maxIterations s \<and> criterion C s k \<and>
        (\<forall>j. 1 \<le> j \<and> j < k \<longrightarrow> \<not> criterion C s j) \<longrightarrow>
      solve C s = (newton_seq C s k)\<lparr>m_numIterations := int k, m_converged := True\<rparr>)"
proof -
  have exit: "solve C s = (newton_seq C s k)\<lparr>m_numIterations := int k, m_converged := True\<rparr>"
    if "1 \<le> k" "int k < m_maxIterations s" "criterion C s k"
      "\<forall>j. 1 \<le> j \<and> j < k \<longrightarrow> \<not> criterion C s j" for k
  proof -
    from that(1) obtain k' where k: "k = Suc k'" by (cases k) auto
    show ?thesis
      unfolding k using that unfolding k by (intro solve_converges) auto
  qed
  have "converged (solve C s)" if ex: "\<exists>k. 1 \<le> k \<and> int k < m_maxIterations s \<and> criterion C s k"
  proof -
    define P where "P k \<longleftrightarrow> 1 \<le> k \<and> int k < m_maxIterations s \<and> criterion C s k" for k
    define k0 where "k0 = (LEAST k. P k)"
    from ex have "\<exists>k. P k" by (simp add: P_def)
    then have "P k0" unfolding k0_def by (rule LeastI_ex)
    have least: "\<not> P j" if "j < k0" for j
      using that not_less_Least unfolding k0_def by blast
    have "\<forall>j. 1 \<le> j \<and> j < k0 \<longrightarrow> \<not> criterion C s j"
    proof (intro allI impI)
      fix j assume j: "1 \<le> j \<and> j < k0"
      with \<open>P k0\<close> have "int j < m_maxIterations s" by (simp add: P_def)
      with least [of j] j show "\<not> criterion C s j" by (simp add: P_def)
    qed
    with \<open>P k0\<close> have "solve C s = (newton_seq C s k0)\<lparr>m_numIterations := int k0, m_converged := True\<rparr>"
      by (intro exit) (simp_all add: P_def)
    then show ?thesis by (simp add: converged_def)
  qed
  moreover have "\<exists>k. 1 \<le> k \<and> int k < m_maxIterations s \<and> criterion C s k" if "converged (solve C s)"
  proof (rule ccontr)
    assume "\<not> ?thesis"
    then have "solve C s =
      (newton_seq C s (nat (m_maxIterations s - 1)))\<lparr>m_numIterations := max 1 (m_maxIterations s)\<rparr>"
      by (intro solve_exhausted) blast
    with that show False by (simp add: converged_def)
  qed
  ultimately show ?thesis using exit by blast
qed

theorem solve_converged_iff_criterion_witness:
  "converged (solve toy_collab (toy_newton 100)) \<and>
   numIterations (solve toy_collab (toy_newton 100)) = 3 \<and>
   solution (solve toy_collab (toy_newton 100)) 0 = 1 / 8 \<and>
   criterion toy_collab (toy_newton 100) 3 \<and>
   \<not> below_tolerance toy_collab (m_updnorm (newton_seq toy_collab (toy_newton 100) 3))
       (m_updnorm (firstIteration toy_collab (toy_newton 100))) (m_tolerance (toy_newton 100))"
proof -
  have small: "j = 1 \<or> j = 2" if "1 \<le> j \<and> j < 3" for j :: nat
    using that by arith
  have first: "\<forall>j. 1 \<le> j \<and> j < 3 \<longrightarrow> \<not> criterion toy_collab (toy_newton 100) j"
    using small toy_criterion(1,2) by blast
  have "(3::nat) \<ge> 1 \<and> int 3 < m_maxIterations (toy_newton 100)"
    by (simp add: toy_newton_def)
  with first toy_criterion(3) [of 100]
  have "solve toy_collab (toy_newton 100) =
      (newton_seq toy_collab (toy_newton 100) 3)\<lparr>m_numIterations := int 3, m_converged := True\<rparr>"
    using solve_converged_iff_criterion [of toy_collab "toy_newton 100"] by blast
  then show ?thesis
    using toy_criterion(3) [of 100] toy_update_test_fails_at_3 [of 100]
    unfolding toy_seq_3 by (simp add: converged_def numIterations_def solution_def toy_newton_def)
qed

text \<open>
  Claim C6. With the assembler's two calls as the spec describes them, the first
  iteration replaces the displacement and the pressure by the parts of the solution of
  the first linear system, whatever they were before, and records the residual norm and
  the update norm, which \<open>solve\<close> then passes to its loop as the two baselines; every
  later iteration adds the parts of its linear solve to the current fields.
\<close>

theorem first_replaces_next_adds:
  "(let C' = with_spec_assembler part C;
        a = asm_assemble C (m_assembler s);
        u = lu_solve C (lu_compute C (asm_matrix C a) (m_solver s)) (asm_rhs C a);
        a' = asm_assemble_at C (m_curSolution s) (m_curPressure s) (m_assembler s);
        u' = lu_solve C (lu_factorize C (asm_matrix C a') (m_solver s)) (asm_rhs C a')
    in m_curSolution (firstIteration C' s) = part 0 u \<and>
       m_curPressure (firstIteration C' s) = part 1 u \<and>
       m_residue (firstIteration C' s) = vec_norm C (asm_rhs C a) \<and>
       m_updnorm (firstIteration C' s) = vec_norm C u \<and>
       solve C' s = newton_loop C' (vec_norm C (asm_rhs C a)) (vec_norm C u)
                      ((firstIteration C' s)\<lparr>m_numIterations := 1\<rparr>) \<and>
       m_curSolution (nextIteration C' s) = m_curSolution s + part 0 u' \<and>
       m_curPressure (nextIteration C' s) = m_curPressure s + part 1 u')"
  by (simp add: Let_def solve_unfold)
     (simp add: firstIteration_def nextIteration_def with_spec_assembler_def
        constructSolution_spec_def updateSolution_spec_def Let_def)

text \<open>
  Claim C8. When no iteration below the maximum meets either test, \<open>solve\<close> returns (it
  is a total function: the loop ends when the counter reaches the maximum) with the
  converged flag false, and \<open>solution 0\<close> and \<open>solution 1\<close> give the displacement and the
  pressure of the last iteration that ran.
\<close>

theorem solve_budget_exhausted:
  assumes "\<forall>k. 1 \<le> k \<and> int k < m_maxIterations s \<longrightarrow> \<not> criterion C s k"
  shows "\<not> converged (solve C s) \<and>
         numIterations (solve C s) = max 1 (m_maxIterations s) \<and>
         solution (solve C s) 0 = m_curSolution (newton_seq C s (nat (m_maxIterations s - 1))) \<and>
         solution (solve C s) 1 = m_curPressure (newton_seq C s (nat (m_maxIterations s - 1)))"
proof -
  have "solve C s =
      (newton_seq C s (nat (m_maxIterations s - 1)))\<lparr>m_numIterations := max 1 (m_maxIterations s)\<rparr>"
    using assms by (intro solve_exhausted) blast
  then show ?thesis
    by (simp add: converged_def numIterations_def solution_def)
qed

theorem solve_budget_exhausted_witness:
  "m_maxIterations (toy_newton 3) = 3 \<and>
   \<not> criterion toy_collab (toy_newton 3) 1 \<and> \<not> criterion toy_collab (toy_newton 3) 2 \<and>
   \<not> converged (solve toy_collab (toy_newton 3)) \<and>
   numIterations (solve toy_collab (toy_newton 3)) = 3 \<and>
   solution (solve toy_collab (toy_newton 3)) 0 = 1 / 4 \<and>
   solution (solve toy_collab (toy_newton 3)) 1 = 0"
proof -
  have small: "k = 1 \<or> k = 2" if "1 \<le> k \<and> int k < m_maxIterations (toy_newton 3)" for k :: nat
    using that by (simp add: toy_newton_def) arith
  have none: "\<forall>k. 1 \<le> k \<and> int k < m_maxIterations (toy_newton 3) \<longrightarrow> \<not> criterion toy_collab (toy_newton 3) k"
    using small toy_criterion(1,2) by blast
  have two: "nat (m_maxIterations (toy_newton 3) - 1) = 2" "max 1 (m_maxIterations (toy_newton 3)) = 3"
    by (simp_all add: toy_newton_def)
  show ?thesis
    using toy_criterion(1,2) [of 3] solve_budget_exhausted [OF none] unfolding two toy_seq_2
    by (simp add: toy_newton_def)
qed

text \<open>
  Claim C9. With an iteration maximum of at most 1, \<open>solve\<close> runs the first iteration
  only: whatever the collaborators, the tolerance and the state, the converged flag is
  false afterwards and \<open>numIterations\<close> is 1, although \<open>nextIteration\<close> never ran.
\<close>

theorem solve_single_iteration:
  assumes "m_maxIterations s \<le> 1"
  shows "solve C s = (firstIteration C s)\<lparr>m_numIterations := 1\<rparr> \<and>
         \<not> converged (solve C s) \<and> numIterations (solve C s) = 1"
proof -
  have "solve C s = (firstIteration C s)\<lparr>m_numIterations := 1\<rparr>"
    using assms by (simp add: solve_unfold newton_loop.simps)
  then show ?thesis
    by (simp add: converged_def numIterations_def)
qed

theorem solve_single_iteration_witness:
  "m_maxIterations (toy_newton 1) \<le> 1 \<and>
   solve toy_collab (toy_newton 1) = (firstIteration toy_collab (toy_newton 1))\<lparr>m_numIterations := 1\<rparr> \<and>
   \<not> converged (solve toy_collab (toy_newton 1)) \<and>
   numIterations (solve toy_collab (toy_newton 1)) = 1"
proof -
  have h: "m_maxIterations (toy_newton 1) \<le> 1"
    by (simp add: toy_newton_def)
  show ?thesis
    using h solve_single_iteration [OF h, of toy_collab] by blast
qed

text \<open>
  Claim C10. \<open>solution i\<close> is the displacement for \<open>i = 0\<close> and the pressure for every
  other index, negative ones and those above 1 included; the accessor has no failing
  branch.
\<close>

theorem solution_index:
  "solution s 0 = m_curSolution s \<and> (i \<noteq> 0 \<longrightarrow> solution s i = m_curPressure s)"
  by (simp add: solution_def)

theorem solution_index_witness:
  "solution (toy_newton 100) 0 = 5 \<and> (- 1 :: int) \<noteq> 0 \<and> solution (toy_newton 100) (- 1) = 7 \<and>
   (2 :: int) \<noteq> 0 \<and> solution (toy_newton 100) 2 = 7"
  using solution_index [of "toy_newton 100" "- 1"] solution_index [of "toy_newton 100" 2]
  by (simp add: toy_newton_def)

section \<open>Properties of the element visitor\<close>

subsection \<open>Folds as sums\<close>

lemma fold_preserves:
  assumes "\<And>x s. x \<in> set xs \<Longrightarrow> \<phi> (f x s) = \<phi> s"
  shows "\<phi> (fold f xs s) = \<phi> s"
  using assms by (induction xs arbitrary: s) simp_all

lemma fold_additive:
  fixes \<phi> :: "'s \<Rightarrow> real"
  assumes "\<And>x s. x \<in> set xs \<Longrightarrow> \<phi> (f x s) = \<phi> s + g x"
  shows "\<phi> (fold f xs s) = \<phi> s + sum_list (map g xs)"
  using assms by (induction xs arbitrary: s) (simp_all add: add.assoc)

lemma fold_upt_additive:
  fixes \<phi> :: "'s \<Rightarrow> real"
  assumes "\<And>x s. m \<le> x \<Longrightarrow> x < n \<Longrightarrow> \<phi> (f x s) = \<phi> s + g x"
  shows "\<phi> (fold f [m..<n] s) = \<phi> s + sum g {m..<n}"
proof -
  have "\<phi> (fold f [m..<n] s) = \<phi> s + sum_list (map g [m..<n])"
    using assms by (intro fold_additive) simp
  then show ?thesis
    by (simp add: interv_sum_list_conv_sum_set_nat)
qed

subsection \<open>What \<open>localToGlobal\<close> leaves alone\<close>

lemma free_indices_u:
  "ci < m_dim V \<Longrightarrow> ai < numActive E \<Longrightarrow>
   is_free_index (mappers ci) (ci_actives mappers patchIndex V E ci ai) \<Longrightarrow>
   ci_actives mappers patchIndex V E ci ai \<in> free_indices mappers patchIndex V E"
  by (auto simp: free_indices_def free_dofs_def)

lemma free_indices_p:
  "ai < numActive_p E \<Longrightarrow>
   is_free_index (mappers (m_dim V)) (ci_actives mappers patchIndex V E (m_dim V) ai) \<Longrightarrow>
   ci_actives mappers patchIndex V E (m_dim V) ai \<in> free_indices mappers patchIndex V E"
  by (auto simp: free_indices_def free_dofs_def)

lemma view_add_coeff:
  "g \<notin> S \<Longrightarrow> i \<in> S \<Longrightarrow> j \<in> S \<Longrightarrow> view g r c (add_coeff G i j v) = view g r c G"
  by (auto simp: view_def add_coeff_def add_entry_def)

lemma view_add_rhs:
  "g \<notin> S \<Longrightarrow> i \<in> S \<Longrightarrow> view g r c (G\<lparr>rhsMatrix := add_at (rhsMatrix G) i v\<rparr>) = view g r c G"
  by (auto simp: view_def add_at_def)

lemma view_scatter_K:
  assumes "g \<notin> free_indices mappers patchIndex V E"
    and "ci_actives mappers patchIndex V E ci ai \<in> free_indices mappers patchIndex V E"
  shows "view g r c (scatter_K mappers patchIndex V E s ci ai G) = view g r c G"
  unfolding scatter_K_def Let_def
  by (intro fold_preserves) (auto simp: view_add_coeff [OF assms(1)] assms(2) free_indices_u)

lemma view_scatter_B:
  assumes "g \<notin> free_indices mappers patchIndex V E"
    and "ci_actives mappers patchIndex V E ci ai \<in> free_indices mappers patchIndex V E"
  shows "view g r c (scatter_B mappers patchIndex V E s ci ai G) = view g r c G"
  unfolding scatter_B_def Let_def
  by (intro fold_preserves) (auto simp: view_add_coeff [OF assms(1)] assms(2) free_indices_p)

lemma view_scatter_u:
  assumes "g \<notin> free_indices mappers patchIndex V E" and "ci < m_dim V" and "ai < numActive E"
  shows "view g r c (scatter_u mappers patchIndex V E s ci ai G) = view g r c G"
  using assms
  by (simp add: scatter_u_def Let_def view_scatter_B view_scatter_K free_indices_u
      view_add_rhs [OF assms(1)])

lemma view_scatter_p:
  assumes "g \<notin> free_indices mappers patchIndex V E" and "ai < numActive_p E"
  shows "view g r c (scatter_p mappers patchIndex V E s ai G) = view g r c G"
proof (cases "is_free_index (mappers (m_dim V)) (ci_actives mappers patchIndex V E (m_dim V) ai)")
  case False
  then show ?thesis by (simp add: scatter_p_def)
next
  case True
  then have ii: "ci_actives mappers patchIndex V E (m_dim V) ai \<in> free_indices mappers patchIndex V E"
    using assms(2) by (intro free_indices_p)
  have "view g r c (scatter_p mappers patchIndex V E s ai G) =
        view g r c (G\<lparr>rhsMatrix := add_at (rhsMatrix G) (ci_actives mappers patchIndex V E (m_dim V) ai)
                          (localRhs_p s ai)\<rparr>)"
    unfolding scatter_p_def Let_def using True
    by (simp, intro fold_preserves) (auto simp: view_add_coeff [OF assms(1)] ii free_indices_p)
  then show ?thesis
    by (simp add: view_add_rhs [OF assms(1) ii])
qed

lemma view_localToGlobal:
  assumes "g \<notin> free_indices mappers patchIndex V E"
  shows "view g r c (localToGlobal mappers eliminatedDofs patchIndex V E s G) = view g r c G"
proof -
  have "view g r c (localToGlobal mappers eliminatedDofs patchIndex V E s G) =
        view g r c (fold (\<lambda>ci. fold (scatter_u mappers patchIndex V E s ci) [0..<numActive E]) [0..<m_dim V] G)"
    unfolding localToGlobal_def
    by (intro fold_preserves) (simp add: view_scatter_p [OF assms])
  also have "\<dots> = view g r c G"
    by (intro fold_preserves) (simp add: view_scatter_u [OF assms])
  finally show ?thesis .
qed

subsection \<open>The pressure residual and the block C at one quadrature node\<close>

lemma kinematics_at_simps [simp]:
  "weight (kinematics_at L V E k) = quWeights E k * geo_measure E k"
  "physGrad (kinematics_at L V E k) = physGrad_at E k"
  "prex_k (kinematics_at L V E k) = m_mu V * pressure_value E k"
  "muprex (kinematics_at L V E k) = m_mu V - m_mu V * pressure_value E k"
  "logdetF (kinematics_at L V E k) =
     quWeights E k * geo_measure E k * m_mu V * math_log L (detF (kinematics_at L V E k))"
  by (simp_all add: kinematics_at_def Let_def)

text \<open>What each loop leaves alone.\<close>

lemma tangent_K_frame [simp]:
  "localMatB (tangent_K V E q i di s) = localMatB s"
  "localMatC (tangent_K V E q i di s) = localMatC s"
  "localRhs_u (tangent_K V E q i di s) = localRhs_u s"
  "localRhs_p (tangent_K V E q i di s) = localRhs_p s"
  unfolding tangent_K_def by (intro fold_preserves; simp)+

lemma tangent_B_frame [simp]:
  "localMatK (tangent_B V E k q i di s) = localMatK s"
  "localMatC (tangent_B V E k q i di s) = localMatC s"
  "localRhs_u (tangent_B V E k q i di s) = localRhs_u s"
  "localRhs_p (tangent_B V E k q i di s) = localRhs_p s"
  unfolding tangent_B_def by (intro fold_preserves; simp)+

lemma displacement_step_frame [simp]:
  "localMatC (displacement_step V E k q i di s) = localMatC s"
  "localRhs_p (displacement_step V E k q i di s) = localRhs_p s"
  by (simp_all add: displacement_step_def Let_def)

lemma displacement_loop_frame [simp]:
  "localMatC (displacement_loop V E k q s) = localMatC s"
  "localRhs_p (displacement_loop V E k q s) = localRhs_p s"
  unfolding displacement_loop_def by (intro fold_preserves; simp)+

lemma force_loop_frame [simp]:
  "localMatK (force_loop V E k q s) = localMatK s"
  "localMatB (force_loop V E k q s) = localMatB s"
  "localMatC (force_loop V E k q s) = localMatC s"
  "localRhs_p (force_loop V E k q s) = localRhs_p s"
  unfolding force_loop_def by (intro fold_preserves; simp)+

lemma fold_localMatC_frame [simp]:
  "localMatK (fold (\<lambda>j s. s\<lparr>localMatC := h j s\<rparr>) xs s) = localMatK s"
  "localMatB (fold (\<lambda>j s. s\<lparr>localMatC := h j s\<rparr>) xs s) = localMatB s"
  "localRhs_u (fold (\<lambda>j s. s\<lparr>localMatC := h j s\<rparr>) xs s) = localRhs_u s"
  "localRhs_p (fold (\<lambda>j s. s\<lparr>localMatC := h j s\<rparr>) xs s) = localRhs_p s"
  by (induction xs arbitrary: s; simp)+

lemma pressure_step_Infinity:
  "m_lambda V = Infinity \<Longrightarrow>
   pressure_step V E k q i s =
     s\<lparr>localRhs_p := add_at (localRhs_p s) i (- (logdetF q * basisVals_p E i k))\<rparr>"
  by (simp add: pressure_step_def)

lemma pressure_step_Finite:
  "m_lambda V = Finite lam \<Longrightarrow>
   pressure_step V E k q i s =
     fold (\<lambda>j s. s\<lparr>localMatC := add_entry (localMatC s) i j
                      (- (m_mu V * m_mu V / lam * weight q * basisVals_p E i k * basisVals_p E j k))\<rparr>)
       [i..<numActive_p E]
       (s\<lparr>localRhs_p :=
            add_at (add_at (localRhs_p s) i (- (logdetF q * basisVals_p E i k))) i
              (m_mu V * m_mu V / lam * weight q / m_mu V * prex_k q * basisVals_p E i k)\<rparr>)"
proof -
  have upd: "s\<lparr>localRhs_p := a\<rparr>\<lparr>localRhs_p := add_at (localRhs_p (s\<lparr>localRhs_p := a\<rparr>)) i b\<rparr> =
        s\<lparr>localRhs_p := add_at a i b\<rparr>" for a b
    by simp
  assume "m_lambda V = Finite lam"
  then show ?thesis
    unfolding pressure_step_def Let_def by (simp only: lame.case upd)
qed

lemma pressure_step_frame [simp]:
  "localMatK (pressure_step V E k q i s) = localMatK s"
  "localMatB (pressure_step V E k q i s) = localMatB s"
  "localRhs_u (pressure_step V E k q i s) = localRhs_u s"
  by (cases "m_lambda V"; simp add: pressure_step_Infinity pressure_step_Finite)+

lemma pressure_loop_frame [simp]:
  "localMatK (pressure_loop V E k q s) = localMatK s"
  "localMatB (pressure_loop V E k q s) = localMatB s"
  "localRhs_u (pressure_loop V E k q s) = localRhs_u s"
  unfolding pressure_loop_def by (intro fold_preserves; simp)+

lemma pressure_step_rhs:
  "localRhs_p (pressure_step V E k q i s) i0 =
     localRhs_p s i0 +
       (if i = i0 then - (logdetF q * basisVals_p E i k)
                        + penalty V q / m_mu V * prex_k q * basisVals_p E i k
        else 0)"
  by (cases "m_lambda V")
     (simp_all add: pressure_step_Infinity pressure_step_Finite penalty_def add_at_def)

lemma pressure_step_C:
  "localMatC (pressure_step V E k q i s) i0 j0 =
     localMatC s i0 j0 +
       (\<Sum>j = i..<numActive_p E.
          if i = i0 \<and> j = j0 then - (penalty V q * basisVals_p E i k * basisVals_p E j k) else 0)"
proof (cases "m_lambda V")
  case Infinity
  have "penalty V q = 0"
    by (simp add: penalty_def Infinity)
  then show ?thesis
    by (simp add: pressure_step_Infinity [OF Infinity] cong: if_cong)
next
  case (Finite lam)
  have "localMatC (pressure_step V E k q i s) i0 j0 =
     localMatC (s\<lparr>localRhs_p :=
            add_at (add_at (localRhs_p s) i (- (logdetF q * basisVals_p E i k))) i
              (m_mu V * m_mu V / lam * weight q / m_mu V * prex_k q * basisVals_p E i k)\<rparr>) i0 j0 +
       (\<Sum>j = i..<numActive_p E.
          if i = i0 \<and> j = j0
          then - (m_mu V * m_mu V / lam * weight q * basisVals_p E i k * basisVals_p E j k) else 0)"
    unfolding pressure_step_Finite [OF Finite]
    by (rule fold_upt_additive [where \<phi> = "\<lambda>s. localMatC s i0 j0"]) (simp add: add_entry_def)
  moreover have pen: "penalty V q = m_mu V * m_mu V / lam * weight q"
    by (simp add: penalty_def Finite)
  ultimately show ?thesis
    unfolding pen by simp
qed

lemma pressure_loop_rhs:
  "localRhs_p (pressure_loop V E k q s) i0 =
     localRhs_p s i0 +
       (if i0 < numActive_p E
        then - (logdetF q * basisVals_p E i0 k) + penalty V q / m_mu V * prex_k q * basisVals_p E i0 k
        else 0)"
proof -
  have "localRhs_p (pressure_loop V E k q s) i0 =
        localRhs_p s i0 +
          (\<Sum>i = 0..<numActive_p E.
             if i = i0 then - (logdetF q * basisVals_p E i k)
                              + penalty V q / m_mu V * prex_k q * basisVals_p E i k
             else 0)"
    unfolding pressure_loop_def
    by (rule fold_upt_additive [where \<phi> = "\<lambda>s. localRhs_p s i0"]) (rule pressure_step_rhs)
  then show ?thesis
    by simp
qed

lemma pressure_loop_C:
  "localMatC (pressure_loop V E k q s) i0 j0 =
     localMatC s i0 j0 +
       (if i0 \<le> j0 \<and> j0 < numActive_p E
        then - (penalty V q * basisVals_p E i0 k * basisVals_p E j0 k) else 0)"
proof -
  have "localMatC (pressure_loop V E k q s) i0 j0 =
        localMatC s i0 j0 +
          (\<Sum>i = 0..<numActive_p E. \<Sum>j = i..<numActive_p E.
             if i = i0 \<and> j = j0 then - (penalty V q * basisVals_p E i k * basisVals_p E j k) else 0)"
    unfolding pressure_loop_def
    by (rule fold_upt_additive [where \<phi> = "\<lambda>s. localMatC s i0 j0"]) (rule pressure_step_C)
  also have "(\<Sum>i = 0..<numActive_p E. \<Sum>j = i..<numActive_p E.
             if i = i0 \<and> j = j0 then - (penalty V q * basisVals_p E i k * basisVals_p E j k) else 0) =
        (\<Sum>i = 0..<numActive_p E. if i = i0 then
            (if i0 \<le> j0 \<and> j0 < numActive_p E
             then - (penalty V q * basisVals_p E i0 k * basisVals_p E j0 k) else 0) else 0)"
    by (intro sum.cong refl) auto
  also have "\<dots> = (if i0 \<le> j0 \<and> j0 < numActive_p E
        then - (penalty V q * basisVals_p E i0 k * basisVals_p E j0 k) else 0)"
    by auto
  finally show ?thesis .
qed

lemma assemble_node_rhs_p:
  "localRhs_p (assemble_node L V E k s) i0 =
     localRhs_p s i0 +
       (if i0 < numActive_p E
        then - (logdetF (kinematics_at L V E k) * basisVals_p E i0 k)
             + penalty V (kinematics_at L V E k) / m_mu V * prex_k (kinematics_at L V E k) * basisVals_p E i0 k
        else 0)"
  by (simp add: assemble_node_def Let_def pressure_loop_rhs del: kinematics_at_simps)

lemma assemble_node_C:
  "localMatC (assemble_node L V E k s) i0 j0 =
     localMatC s i0 j0 +
       (if i0 \<le> j0 \<and> j0 < numActive_p E
        then - (penalty V (kinematics_at L V E k) * basisVals_p E i0 k * basisVals_p E j0 k) else 0)"
  by (simp add: assemble_node_def Let_def pressure_loop_C del: kinematics_at_simps)

lemma detF_kinematics_at:
  "detF (kinematics_at L V E k) = mat_determinant L (m_dim V) (defGrad (kinematics_at L V E k))"
  by (simp add: kinematics_at_def Let_def)

subsection \<open>The displacement residual at one quadrature node\<close>

text \<open>The index of component \<open>d\<close> of function \<open>i\<close> determines both.\<close>

lemma dof_index_eq:
  fixes n :: nat
  assumes "i < n" "i0 < n"
  shows "d * n + i0 = di * n + i \<longleftrightarrow> di = d \<and> i = i0"
proof
  assume eq: "d * n + i0 = di * n + i"
  then have "(d * n + i0) div n = (di * n + i) div n" "(d * n + i0) mod n = (di * n + i) mod n"
    by simp_all
  with assms show "di = d \<and> i = i0"
    by simp
qed simp

lemma dof_index_block:
  fixes n :: nat
  assumes "i0 < n"
  shows "j * n \<le> d * n + i0 \<and> d * n + i0 < j * n + n \<longleftrightarrow> j = d"
proof
  assume h: "j * n \<le> d * n + i0 \<and> d * n + i0 < j * n + n"
  have "(d * n + i0) div n = d"
    using assms by simp
  moreover have "(d * n + i0) div n = j"
  proof (rule div_nat_eqI)
    show "n * j \<le> d * n + i0" using h by (simp add: mult.commute)
    show "d * n + i0 < n * Suc j" using h by (simp add: mult.commute)
  qed
  ultimately show "j = d" by simp
next
  assume "j = d"
  with assms show "j * n \<le> d * n + i0 \<and> d * n + i0 < j * n + n" by simp
qed

lemma add_identity_entry:
  "add_identity n A a b = A a b + (if a = b \<and> a < n then 1 else 0)"
proof -
  have "add_identity n A a b = A a b + (\<Sum>di = 0..<n. if a = di \<and> b = di then 1 else 0)"
    unfolding add_identity_def
    by (rule fold_upt_additive [where \<phi> = "\<lambda>F. F a b"]) (simp add: add_entry_def)
  also have "(\<Sum>di = 0..<n. if a = di \<and> b = di then 1 else 0) =
             (\<Sum>di = 0..<n. if di = a then (if a = b then 1 else 0) else (0::real))"
    by (intro sum.cong refl) auto
  finally show ?thesis by simp
qed

lemma defGrad_kinematics_at:
  "defGrad (kinematics_at L V E k) a b =
     displGrad (kinematics_at L V E k) b a + (if a = b \<and> a < m_dim V then 1 else 0)"
  by (simp add: kinematics_at_def Let_def add_identity_entry transpose_m_def)

lemma displGrad_kinematics_at:
  "displGrad (kinematics_at L V E k) =
     mat_mult (m_dim V) (mat_inverse L (m_dim V) (transpose_m (geo_jacobian E k)))
       (transpose_m (deformation_jacobian E k))"
  by (simp add: kinematics_at_def Let_def)

lemma locResMat_kinematics_at:
  "locResMat (kinematics_at L V E k) a b =
     quWeights E k * geo_measure E k *
       (m_mu V * (defGrad (kinematics_at L V E k) a b
                   - mat_inverse L (m_dim V) (defGrad (kinematics_at L V E k)) b a)
        + m_mu V * pressure_value E k * mat_inverse L (m_dim V) (defGrad (kinematics_at L V E k)) b a)"
  by (simp add: kinematics_at_def Let_def add_m_def scale_m_def sub_m_def transpose_m_def algebra_simps)

lemma displacement_step_rhs:
  "localRhs_u (displacement_step V E k q i di s) r =
     localRhs_u s r +
       (if r = di * numActive E + i
        then - mat_vec (m_dim V) (locResMat q) (col_m (physGrad q) i) di else 0)"
  by (simp add: displacement_step_def Let_def add_at_def)

lemma displacement_loop_rhs:
  assumes "i0 < numActive E" "d < m_dim V"
  shows "localRhs_u (displacement_loop V E k q s) (d * numActive E + i0) =
     localRhs_u s (d * numActive E + i0) - mat_vec (m_dim V) (locResMat q) (col_m (physGrad q) i0) d"
proof -
  let ?r = "d * numActive E + i0"
  let ?c = "\<lambda>i di. - mat_vec (m_dim V) (locResMat q) (col_m (physGrad q) i) di"
  have "localRhs_u (displacement_loop V E k q s) ?r =
        localRhs_u s ?r + (\<Sum>i = 0..<numActive E. \<Sum>di = 0..<m_dim V.
                             if ?r = di * numActive E + i then ?c i di else 0)"
    unfolding displacement_loop_def
    by (rule fold_upt_additive [where \<phi> = "\<lambda>s. localRhs_u s ?r"],
        rule fold_upt_additive [where \<phi> = "\<lambda>s. localRhs_u s ?r"])
       (rule displacement_step_rhs)
  also have "(\<Sum>i = 0..<numActive E. \<Sum>di = 0..<m_dim V.
                 if ?r = di * numActive E + i then ?c i di else 0) =
             (\<Sum>i = 0..<numActive E. if i = i0 then ?c i0 d else 0)"
  proof (intro sum.cong refl)
    fix i assume "i \<in> {0..<numActive E}"
    then have "(\<Sum>di = 0..<m_dim V. if ?r = di * numActive E + i then ?c i di else 0) =
               (\<Sum>di = 0..<m_dim V. if di = d then (if i = i0 then ?c i di else 0) else 0)"
      using assms(1) by (intro sum.cong refl) (simp add: dof_index_eq)
    also have "\<dots> = (if i = i0 then ?c i d else 0)"
      using assms(2) by simp
    finally show "(\<Sum>di = 0..<m_dim V. if ?r = di * numActive E + i then ?c i di else 0) =
                  (if i = i0 then ?c i0 d else 0)"
      by simp
  qed
  also have "\<dots> = ?c i0 d"
    using assms(1) by simp
  finally show ?thesis by simp
qed

lemma force_loop_rhs:
  assumes "i0 < numActive E" "d < m_dim V"
  shows "localRhs_u (force_loop V E k q s) (d * numActive E + i0) =
     localRhs_u s (d * numActive E + i0)
       + weight q * m_rho V * forceVals E d k * m_tfac V * bVals E i0 k"
proof -
  let ?r = "d * numActive E + i0"
  let ?c = "\<lambda>j. weight q * m_rho V * forceVals E j k * m_tfac V * bVals E (?r - j * numActive E) k"
  have "localRhs_u (force_loop V E k q s) ?r =
        localRhs_u s ?r + (\<Sum>j = 0..<m_dim V.
           if j * numActive E \<le> ?r \<and> ?r < j * numActive E + numActive E then ?c j else 0)"
    unfolding force_loop_def
    by (rule fold_upt_additive [where \<phi> = "\<lambda>s. localRhs_u s ?r"]) (simp add: add_middleRows_def)
  also have "(\<Sum>j = 0..<m_dim V.
           if j * numActive E \<le> ?r \<and> ?r < j * numActive E + numActive E then ?c j else 0) =
         (\<Sum>j = 0..<m_dim V. if j = d then ?c d else 0)"
    using assms(1) by (intro sum.cong refl) (auto simp: dof_index_block)
  also have "\<dots> = ?c d"
    using assms(2) by simp
  finally show ?thesis by simp
qed

subsection \<open>The residuals and block C after all quadrature nodes\<close>

lemma assemble_nodes_rhs_p:
  "localRhs_p (assemble_nodes L V E s) i0 =
     localRhs_p s i0 +
       (\<Sum>k<numQuNodes E.
          if i0 < numActive_p E
          then - (logdetF (kinematics_at L V E k) * basisVals_p E i0 k)
               + penalty V (kinematics_at L V E k) / m_mu V * prex_k (kinematics_at L V E k)
                   * basisVals_p E i0 k
          else 0)"
proof -
  have "localRhs_p (assemble_nodes L V E s) i0 =
     localRhs_p s i0 +
       (\<Sum>k = 0..<numQuNodes E.
          if i0 < numActive_p E
          then - (logdetF (kinematics_at L V E k) * basisVals_p E i0 k)
               + penalty V (kinematics_at L V E k) / m_mu V * prex_k (kinematics_at L V E k)
                   * basisVals_p E i0 k
          else 0)"
    unfolding assemble_nodes_def
    by (rule fold_upt_additive [where \<phi> = "\<lambda>s. localRhs_p s i0"]) (rule assemble_node_rhs_p)
  then show ?thesis
    by (simp add: atLeast0LessThan del: kinematics_at_simps)
qed

lemma assemble_nodes_C:
  "localMatC (assemble_nodes L V E s) i0 j0 =
     localMatC s i0 j0 +
       (\<Sum>k<numQuNodes E.
          if i0 \<le> j0 \<and> j0 < numActive_p E
          then - (penalty V (kinematics_at L V E k) * basisVals_p E i0 k * basisVals_p E j0 k) else 0)"
proof -
  have "localMatC (assemble_nodes L V E s) i0 j0 =
     localMatC s i0 j0 +
       (\<Sum>k = 0..<numQuNodes E.
          if i0 \<le> j0 \<and> j0 < numActive_p E
          then - (penalty V (kinematics_at L V E k) * basisVals_p E i0 k * basisVals_p E j0 k) else 0)"
    unfolding assemble_nodes_def
    by (rule fold_upt_additive [where \<phi> = "\<lambda>s. localMatC s i0 j0"]) (rule assemble_node_C)
  then show ?thesis
    by (simp add: atLeast0LessThan del: kinematics_at_simps)
qed

lemma assemble_node_rhs_u:
  assumes "i < numActive E" and "d < m_dim V"
  shows "localRhs_u (assemble_node L V E k s) (d * numActive E + i) =
     localRhs_u s (d * numActive E + i) +
       (- mat_vec (m_dim V) (locResMat (kinematics_at L V E k)) (col_m (physGrad_at E k) i) d
        + quWeights E k * geo_measure E k * m_rho V * forceVals E d k * m_tfac V * bVals E i k)"
  using assms by (simp add: assemble_node_def Let_def force_loop_rhs displacement_loop_rhs)

lemma assemble_nodes_rhs_u:
  assumes "i < numActive E" and "d < m_dim V"
  shows "localRhs_u (assemble_nodes L V E s) (d * numActive E + i) =
     localRhs_u s (d * numActive E + i) +
       (\<Sum>k<numQuNodes E.
          - mat_vec (m_dim V) (locResMat (kinematics_at L V E k)) (col_m (physGrad_at E k) i) d
          + quWeights E k * geo_measure E k * m_rho V * forceVals E d k * m_tfac V * bVals E i k)"
proof -
  have "localRhs_u (assemble_nodes L V E s) (d * numActive E + i) =
     localRhs_u s (d * numActive E + i) +
       (\<Sum>k = 0..<numQuNodes E.
          - mat_vec (m_dim V) (locResMat (kinematics_at L V E k)) (col_m (physGrad_at E k) i) d
          + quWeights E k * geo_measure E k * m_rho V * forceVals E d k * m_tfac V * bVals E i k)"
    unfolding assemble_nodes_def
    by (rule fold_upt_additive [where \<phi> = "\<lambda>s. localRhs_u s (d * numActive E + i)"])
       (rule assemble_node_rhs_u [OF assms])
  then show ?thesis
    by (simp add: atLeast0LessThan)
qed

text \<open>The product of the local stress matrix with a gradient, with the weight taken out.\<close>

lemma locResVec_kinematics_at:
  "mat_vec (m_dim V) (locResMat (kinematics_at L V E k)) x d =
     quWeights E k * geo_measure E k *
       mat_vec (m_dim V)
         (add_m (scale_m (m_mu V)
                   (sub_m (defGrad (kinematics_at L V E k))
                      (transpose_m (mat_inverse L (m_dim V) (defGrad (kinematics_at L V E k))))))
                (scale_m (m_mu V * pressure_value E k)
                   (transpose_m (mat_inverse L (m_dim V) (defGrad (kinematics_at L V E k))))))
         x d"
  unfolding mat_vec_def locResMat_kinematics_at
  by (simp add: sum_distrib_left add_m_def scale_m_def sub_m_def transpose_m_def mult.assoc)

lemma penalty_term:
  assumes "m_mu V \<noteq> 0"
  shows "penalty V (kinematics_at L V E k) / m_mu V * prex_k (kinematics_at L V E k) * x =
     (case m_lambda V of
        Infinity \<Rightarrow> 0
      | Finite lam \<Rightarrow> (m_mu V)\<^sup>2 / lam * (quWeights E k * geo_measure E k) * pressure_value E k * x)"
  using assms by (cases "m_lambda V") (simp_all add: penalty_def power2_eq_square)

lemma assemble_nodes_pressure_term:
  assumes "m_mu V \<noteq> 0" and "i < numActive_p E"
  shows "localRhs_p (assemble_nodes L V E s) i =
     localRhs_p s i + (\<Sum>k<numQuNodes E. pressure_term L V E i k)"
proof -
  have "(if i < numActive_p E
          then - (logdetF (kinematics_at L V E k) * basisVals_p E i k)
               + penalty V (kinematics_at L V E k) / m_mu V * prex_k (kinematics_at L V E k)
                   * basisVals_p E i k
          else 0) = pressure_term L V E i k" for k
    unfolding penalty_term [OF assms(1)] pressure_term_def using assms(2) by simp
  then show ?thesis
    unfolding assemble_nodes_rhs_p by simp
qed

subsection \<open>What the scatter does to the symmetry of the matrix\<close>


lemma skew_add_mirrored:
  "skew i j (add_coeff (add_coeff G a b v) b a v) = skew i j G"
  by (auto simp: skew_def add_coeff_def add_entry_def)

lemma skew_add_diagonal:
  "skew i j (add_coeff G a a v) = skew i j G"
  by (auto simp: skew_def add_coeff_def add_entry_def)



lemma skew_add_rhs [simp]:
  "skew i j (G\<lparr>rhsMatrix := x\<rparr>) = skew i j G"
  by (simp add: skew_def)


lemma skew_scatter_B [simp]:
  "skew i j (scatter_B mappers patchIndex V E s ci ai G) = skew i j G"
  unfolding scatter_B_def Let_def
  by (intro fold_preserves) (simp add: skew_add_mirrored)

lemma skew_scatter_p [simp]:
  "skew i j (scatter_p mappers patchIndex V E s ai G) = skew i j G"
proof (cases "is_free_index (mappers (m_dim V)) (ci_actives mappers patchIndex V E (m_dim V) ai)")
  case False
  then show ?thesis by (simp add: scatter_p_def)
next
  case True
  let ?ii = "ci_actives mappers patchIndex V E (m_dim V) ai"
  let ?step = "\<lambda>aj G. if is_free_index (mappers (m_dim V)) (ci_actives mappers patchIndex V E (m_dim V) aj)
                 then if ai < aj
                      then add_coeff (add_coeff G ?ii (ci_actives mappers patchIndex V E (m_dim V) aj)
                                        (localMatC s ai aj))
                             (ci_actives mappers patchIndex V E (m_dim V) aj) ?ii (localMatC s ai aj)
                      else add_coeff G ?ii (ci_actives mappers patchIndex V E (m_dim V) aj) (localMatC s ai aj)
                 else G"
  have fold: "skew i j (fold ?step [ai..<numActive_p E] G0) = skew i j G0" for G0
    by (intro fold_preserves) (auto simp: skew_add_mirrored skew_add_diagonal)
  have "scatter_p mappers patchIndex V E s ai G =
        fold ?step [ai..<numActive_p E] (G\<lparr>rhsMatrix := add_at (rhsMatrix G) ?ii (localRhs_p s ai)\<rparr>)"
    unfolding scatter_p_def Let_def using True by simp
  then show ?thesis
    by (simp add: fold)
qed






subsection \<open>The plane example, evaluated\<close>

lemma sum_below_2: "(\<Sum>k<2. f k) = f 0 + f (1::nat)" for f :: "nat \<Rightarrow> real"
  by (simp add: numeral_2_eq_2)

lemma stretched_defGrad:
  "defGrad (kinematics_at lib2 (plane lam) (stretched g) k) a b = mat2 (1 + g) 0 0 1 a b"
  by (simp add: defGrad_kinematics_at displGrad_kinematics_at plane_def stretched_def lib2_def
      mat_mult_def transpose_m_def sum_below_2 mat2_def)

lemma stretched_defGrad':
  "defGrad (kinematics_at lib2 (plane lam) (stretched g) k) = mat2 (1 + g) 0 0 1"
  by (simp add: fun_eq_iff stretched_defGrad)

lemma upt_2: "[0..<2] = [0, 1]" "[0..<1] = [0]" "[1..<2] = [1]" "[1..<1] = []" "[2..<2] = []"
  by (simp_all add: upt_rec)

lemma pinned_free_indices:
  "free_indices pinned p (plane lam) (stretched g) = {0, 1, 2}"
  by (auto simp: free_indices_def free_dofs_def ci_actives_def plane_def stretched_def pinned_def upt_2)






section \<open>The claims about the element visitor\<close>







text \<open>
  Claim C3. The element assembly subtracts from entry \<open>d * numActive + i\<close> of the local
  displacement residual, for every quadrature node \<open>k\<close>, active displacement function \<open>i\<close>
  and component \<open>d\<close>, the \<open>d\<close>-th component of
  \<open>weight * [mu (F - F\<^sup>-\<^sup>T) + prex F\<^sup>-\<^sup>T] grad(phi_i)\<close>, with \<open>prex = mu * p\<close>, the weight
  the quadrature weight times the geometry measure, and \<open>F = I + H\<^sup>T\<close> for the
  displacement gradient \<open>H\<close>, all taken at \<open>k\<close>. The only other change of that entry is the
  body force of each node.
\<close>

theorem displacement_residual:
  assumes "i < numActive E" and "d < m_dim V"
  shows "assemble L V E s = Inr (assemble_nodes L V E s) \<and>
         localRhs_u (assemble_nodes L V E s) (d * numActive E + i) =
           localRhs_u s (d * numActive E + i) +
             (\<Sum>k<numQuNodes E.
                let n = m_dim V;
                    w = quWeights E k * geo_measure E k;
                    prex = m_mu V * pressure_value E k;
                    F = defGrad (kinematics_at L V E k);
                    FiT = transpose_m (mat_inverse L n F);
                    P = add_m (scale_m (m_mu V) (sub_m F FiT)) (scale_m prex FiT)
                in - (w * mat_vec n P (col_m (physGrad_at E k) i) d)
                   + w * m_rho V * forceVals E d k * m_tfac V * bVals E i k) \<and>
         defGrad (kinematics_at L V E k) a b =
           (if a = b \<and> a < m_dim V then 1 else 0)
           + transpose_m (mat_mult (m_dim V) (mat_inverse L (m_dim V) (transpose_m (geo_jacobian E k)))
                            (transpose_m (deformation_jacobian E k))) a b"
  using assms
  by (simp add: assemble_def assemble_nodes_rhs_u locResVec_kinematics_at Let_def
      defGrad_kinematics_at displGrad_kinematics_at transpose_m_def)

theorem displacement_residual_witness:
  "(1::nat) < numActive (stretched 1) \<and> (1::nat) < m_dim (plane (Finite 4)) \<and>
   assemble lib2 (plane (Finite 4)) (stretched 1) zero_locals =
     Inr (assemble_nodes lib2 (plane (Finite 4)) (stretched 1) zero_locals) \<and>
   localRhs_u (assemble_nodes lib2 (plane (Finite 4)) (stretched 1) zero_locals)
     (1 * numActive (stretched 1) + 1) = - (75 / 4) \<and>
   defGrad (kinematics_at lib2 (plane (Finite 4)) (stretched 1) 0) 0 0 = 2"
proof -
  have h: "(1::nat) < numActive (stretched 1)" "(1::nat) < m_dim (plane (Finite 4))"
    by (simp_all add: stretched_def plane_def)
  have n: "numQuNodes (stretched 1) = 2"
    by (simp add: stretched_def)
  show ?thesis
    using h displacement_residual [OF h, where L = lib2 and k = 0 and s = zero_locals and a = 0 and b = 0]
    unfolding Let_def stretched_defGrad' n sum_below_2
    by (simp add: plane_def stretched_def lib2_def zero_locals_def mat_vec_def add_m_def scale_m_def
        sub_m_def transpose_m_def col_m_def sum_below_2 mat2_def mat_mult_def)
qed

text \<open>
  Claim C4. \<open>localToGlobal\<close> writes rows and columns of the matrix and rows of the
  right-hand side only at global indices that it resolved for a local degree of freedom
  and found free: at every other index the row, the column and the right-hand side are
  as before. A local degree of freedom whose index is eliminated is skipped as a whole.
\<close>

theorem localToGlobal_skips_eliminated:
  "(g \<notin> free_indices mappers patchIndex V E \<longrightarrow>
      sysMatrix (localToGlobal mappers eliminatedDofs patchIndex V E s G) g c = sysMatrix G g c \<and>
      sysMatrix (localToGlobal mappers eliminatedDofs patchIndex V E s G) r g = sysMatrix G r g \<and>
      rhsMatrix (localToGlobal mappers eliminatedDofs patchIndex V E s G) g = rhsMatrix G g) \<and>
   (\<not> is_free_index (mappers ci) (ci_actives mappers patchIndex V E ci ai) \<longrightarrow>
      scatter_u mappers patchIndex V E s ci ai G = G) \<and>
   (\<not> is_free_index (mappers (m_dim V)) (ci_actives mappers patchIndex V E (m_dim V) ai) \<longrightarrow>
      scatter_p mappers patchIndex V E s ai G = G)"
  using view_localToGlobal [of g mappers patchIndex V E r c eliminatedDofs s G]
  by (simp add: view_def scatter_u_def scatter_p_def)

theorem localToGlobal_skips_eliminated_witness:
  "100 \<notin> free_indices pinned 0 (plane Infinity) (stretched 1) \<and>
   sysMatrix (localToGlobal pinned zero_m 0 (plane Infinity) (stretched 1) unit_locals zero_global) 100 0 = 0 \<and>
   sysMatrix (localToGlobal pinned zero_m 0 (plane Infinity) (stretched 1) unit_locals zero_global) 1 100 = 0 \<and>
   rhsMatrix (localToGlobal pinned zero_m 0 (plane Infinity) (stretched 1) unit_locals zero_global) 100 = 0 \<and>
   \<not> is_free_index (pinned 0) (ci_actives pinned 0 (plane Infinity) (stretched 1) 0 0) \<and>
   scatter_u pinned 0 (plane Infinity) (stretched 1) unit_locals 0 0 zero_global = zero_global"
proof -
  have h: "100 \<notin> free_indices pinned 0 (plane Infinity) (stretched 1)"
    by (simp add: pinned_free_indices)
  have e: "\<not> is_free_index (pinned 0) (ci_actives pinned 0 (plane Infinity) (stretched 1) 0 0)"
    by (simp add: ci_actives_def plane_def stretched_def pinned_def)
  show ?thesis
    using h e localToGlobal_skips_eliminated
      [where g = 100 and mappers = pinned and patchIndex = 0 and V = "plane Infinity"
         and E = "stretched 1" and eliminatedDofs = zero_m and s = unit_locals and G = zero_global
         and c = 0 and r = 1 and ci = 0 and ai = 0]
    by (simp add: zero_global_def zero_m_def)
qed

text \<open>
  Claim C7. The element assembly subtracts \<open>weight * mu * log(J) * psi_i\<close> from entry \<open>i\<close>
  of the local pressure residual, for every quadrature node and active pressure function
  \<open>i\<close>. When \<open>lambda\<close> is finite it also adds \<open>(mu\<^sup>2 / lambda) * weight * p * psi_i\<close> to
  that entry and subtracts \<open>(mu\<^sup>2 / lambda) * weight * psi_i * psi_j\<close> from the entries
  \<open>(i, j)\<close>, \<open>j \<ge> i\<close>, of block C, and from no other; when \<open>lambda\<close> is infinite there is
  no such term and block C is unchanged. (\<open>mu\<close> and a finite \<open>lambda\<close> are nonzero: the
  quotients by them are not real numbers otherwise.)
\<close>

theorem pressure_residual_and_penalty:
  assumes "m_mu V \<noteq> 0" and "m_lambda V \<noteq> Finite 0" and "i < numActive_p E"
  shows "assemble L V E s = Inr (assemble_nodes L V E s) \<and>
     (case m_lambda V of
        Finite lam \<Rightarrow>
          localRhs_p (assemble_nodes L V E s) i =
            localRhs_p s i +
              (\<Sum>k<numQuNodes E.
                 - (quWeights E k * geo_measure E k * m_mu V
                      * math_log L (mat_determinant L (m_dim V) (defGrad (kinematics_at L V E k)))
                      * basisVals_p E i k)
                 + (m_mu V)\<^sup>2 / lam * (quWeights E k * geo_measure E k) * pressure_value E k
                     * basisVals_p E i k) \<and>
          localMatC (assemble_nodes L V E s) i j =
            localMatC s i j +
              (\<Sum>k<numQuNodes E.
                 if i \<le> j \<and> j < numActive_p E
                 then - ((m_mu V)\<^sup>2 / lam * (quWeights E k * geo_measure E k)
                           * basisVals_p E i k * basisVals_p E j k)
                 else 0)
      | Infinity \<Rightarrow>
          localRhs_p (assemble_nodes L V E s) i =
            localRhs_p s i +
              (\<Sum>k<numQuNodes E.
                 - (quWeights E k * geo_measure E k * m_mu V
                      * math_log L (mat_determinant L (m_dim V) (defGrad (kinematics_at L V E k)))
                      * basisVals_p E i k)) \<and>
          localMatC (assemble_nodes L V E s) = localMatC s)"
proof (cases "m_lambda V")
  case Infinity
  have "penalty V q = 0" for q
    by (simp add: penalty_def Infinity)
  then have "localMatC (assemble_nodes L V E s) = localMatC s"
    by (simp add: fun_eq_iff assemble_nodes_C cong: if_cong)
  then show ?thesis
    using assms(1,3)
    by (simp add: assemble_def Infinity assemble_nodes_pressure_term pressure_term_def
        detF_kinematics_at)
next
  case (Finite lam)
  have pen: "penalty V (kinematics_at L V E k) = (m_mu V)\<^sup>2 / lam * (quWeights E k * geo_measure E k)" for k
    by (simp add: penalty_def Finite power2_eq_square)
  show ?thesis
    using assms(1,3)
    by (simp add: assemble_def Finite assemble_nodes_pressure_term pressure_term_def
        detF_kinematics_at assemble_nodes_C pen cong: if_cong)
qed

theorem pressure_residual_and_penalty_witness:
  "m_mu (plane (Finite 4)) \<noteq> 0 \<and> m_lambda (plane (Finite 4)) \<noteq> Finite 0 \<and>
   m_lambda (plane Infinity) \<noteq> Finite 0 \<and> (0::nat) < numActive_p (stretched 1) \<and>
   localRhs_p (assemble_nodes lib2 (plane (Finite 4)) (stretched 1) zero_locals) 0 = 9 / 2 - 3 * ln 2 \<and>
   localMatC (assemble_nodes lib2 (plane (Finite 4)) (stretched 1) zero_locals) 0 0 = - (3 / 2) \<and>
   localRhs_p (assemble_nodes lib2 (plane Infinity) (stretched 1) zero_locals) 0 = - (3 * ln 2) \<and>
   localMatC (assemble_nodes lib2 (plane Infinity) (stretched 1) zero_locals) = zero_m"
proof -
  have h1: "m_mu (plane lam) \<noteq> 0" for lam
    by (simp add: plane_def)
  have h2: "m_lambda (plane (Finite 4)) \<noteq> Finite 0" "m_lambda (plane Infinity) \<noteq> Finite 0"
    by (simp_all add: plane_def)
  have h3: "(0::nat) < numActive_p (stretched 1)"
    by (simp add: stretched_def)
  have n: "numQuNodes (stretched 1) = 2"
    by (simp add: stretched_def)
  show ?thesis
    using h1 [of "Finite 4"] h2 h3
      pressure_residual_and_penalty [OF h1 h2(1) h3, where L = lib2 and s = zero_locals and j = 0]
      pressure_residual_and_penalty [OF h1 h2(2) h3, where L = lib2 and s = zero_locals and j = 0]
    unfolding stretched_defGrad' n sum_below_2
    by (simp add: plane_def stretched_def zero_locals_def zero_m_def lib2_def mat2_def)
qed

end
